theory Spec2Isabelle
  imports Complex_Main "HOL-Library.Log_Nat"
begin

section \<open>JavaScript numbers\<close>

text \<open>
  The order service adds the line subtotals as JavaScript numbers
  (\<^verbatim>\<open>sum + parseFloat(item.subtotal)\<close>), that is as IEEE 754 binary64 values with
  round-to-nearest, ties-to-even. A finite number is kept as the rational it denotes;
  the sign of zero is not kept (no operation of the handler tells the two zeros apart
  except the sign printed by \<^verbatim>\<open>toFixed\<close> for a negative value that rounds to zero,
  which is kept).
\<close>

datatype number = NaN | PosInfinity | NegInfinity | Finite rat

text \<open>\<open>ilog2 x\<close> is the binary exponent of a positive rational: \<open>2 ^ e \<le> x < 2 ^ (e + 1)\<close>.\<close>

definition ilog2 :: "rat \<Rightarrow> int" where
  "ilog2 x = (if 1 \<le> x then bitlen \<lfloor>x\<rfloor> - 1 else - bitlen (\<lceil>1 / x\<rceil> - 1))"

text \<open>Rounding to the nearest integer, a tie going to the even neighbour.\<close>

definition round_half_even :: "rat \<Rightarrow> int" where
  "round_half_even x =
     (let f = \<lfloor>x\<rfloor>; d = x - of_int f
      in if d < 1 / 2 then f
         else if 1 / 2 < d then f + 1
         else if even f then f else f + 1)"

text \<open>
  \<open>to_double x\<close> is the binary64 value nearest to the rational \<open>x\<close>: 53 significant bits
  for a normal value, multiples of \<open>2 ^ -1074\<close> below \<open>2 ^ -1022\<close>, and an infinity when
  the rounded magnitude reaches \<open>2 ^ 1024\<close>.
\<close>

definition to_double :: "rat \<Rightarrow> number" where
  "to_double x =
     (if x = 0 then Finite 0
      else
        let e = ilog2 \<bar>x\<bar>;
            q = 2 powi (max (e - 52) (- 1074));
            r = of_int (round_half_even (x / q)) * q
        in if 2 powi 1024 \<le> \<bar>r\<bar> then (if 0 < x then PosInfinity else NegInfinity)
           else Finite r)"

text \<open>The \<^verbatim>\<open>+\<close> of two numbers.\<close>

fun num_add :: "number \<Rightarrow> number \<Rightarrow> number" where
  "num_add NaN _ = NaN"
| "num_add _ NaN = NaN"
| "num_add PosInfinity NegInfinity = NaN"
| "num_add NegInfinity PosInfinity = NaN"
| "num_add PosInfinity _ = PosInfinity"
| "num_add _ PosInfinity = PosInfinity"
| "num_add NegInfinity _ = NegInfinity"
| "num_add _ NegInfinity = NegInfinity"
| "num_add (Finite a) (Finite b) = to_double (a + b)"


subsection \<open>Decimal text\<close>

text \<open>
  A \<^verbatim>\<open>DECIMAL(p, 2)\<close> value is kept as its number of hundredths. mysql2 hands such a
  column to JavaScript as its decimal text (\<open>decimal_str\<close>), and \<^verbatim>\<open>NULL\<close> as
  \<^verbatim>\<open>null\<close>.
\<close>

type_synonym decimal = int

definition digit_char :: "nat \<Rightarrow> char" where
  "digit_char d = ''0123456789'' ! d"

fun digits10 :: "nat \<Rightarrow> string" where
  "digits10 n = (if n < 10 then [digit_char n] else digits10 (n div 10) @ [digit_char (n mod 10)])"

definition fixed2 :: "nat \<Rightarrow> string" where
  "fixed2 n = digits10 (n div 100) @ ''.'' @ [digit_char (n mod 100 div 10), digit_char (n mod 10)]"

definition decimal_str :: "decimal \<Rightarrow> string" where
  "decimal_str c = (if c < 0 then ''-'' else []) @ fixed2 (nat \<bar>c\<bar>)"

text \<open>
  \<^verbatim>\<open>parseFloat(item.subtotal)\<close>: the double nearest to the decimal text, and
  \<^verbatim>\<open>NaN\<close> for \<^verbatim>\<open>null\<close>.
\<close>

definition parseFloat :: "decimal option \<Rightarrow> number" where
  "parseFloat v = (case v of None \<Rightarrow> NaN | Some c \<Rightarrow> to_double (of_int c / 100))"

text \<open>Rounding to the nearest integer, a tie going away from zero.\<close>

definition round_half_away :: "rat \<Rightarrow> int" where
  "round_half_away x = (if x < 0 then - \<lfloor>- x + 1 / 2\<rfloor> else \<lfloor>x + 1 / 2\<rfloor>)"

subsection \<open>The decimal text of a number\<close>

text \<open>\<open>ilog10 x\<close> is the decimal exponent of a positive rational: \<open>10 ^ e \<le> x < 10 ^ (e + 1)\<close>.\<close>

definition ilog10 :: "rat \<Rightarrow> int" where
  "ilog10 x =
     (if 1 \<le> x then int (floorlog 10 (nat \<lfloor>x\<rfloor>)) - 1
      else - int (floorlog 10 (nat (\<lceil>1 / x\<rceil> - 1))))"

text \<open>
  \<^verbatim>\<open>Number::toString\<close> writes a finite number \<open>x\<close> with the fewest significant
  digits \<open>k\<close> such that the decimal \<open>s * 10 ^ p\<close> reads back as \<open>x\<close>, taking the \<open>s\<close>
  nearest to \<open>x\<close> when two qualify. \<open>digits_candidate\<close> is the attempt with \<open>k\<close> digits for
  a positive \<open>x\<close>; \<open>shortest_digits\<close> searches \<open>k = 1, 2, \<dots>\<close> and returns \<open>(s, p)\<close>.
  Seventeen digits always suffice for a double; should the search run out, the full
  decimal expansion stands in (a double is a multiple of \<open>2 ^ -1074\<close>, so 1074 decimals
  are exact).
\<close>

definition digits_candidate :: "nat \<Rightarrow> rat \<Rightarrow> (int \<times> int) option" where
  "digits_candidate k x =
     (let p = ilog10 x + 1 - int k;
          s = \<lfloor>x / 10 powi p\<rfloor>;
          lo = of_int s * 10 powi p;
          hi = of_int (s + 1) * 10 powi p;
          oklo = (to_double lo = Finite x);
          okhi = (to_double hi = Finite x)
      in if oklo \<and> okhi then
           (if x - lo < hi - x then Some (s, p)
            else if hi - x < x - lo then Some (s + 1, p)
            else if even s then Some (s, p) else Some (s + 1, p))
         else if oklo then Some (s, p)
         else if okhi then Some (s + 1, p)
         else None)"

definition exact_digits :: "rat \<Rightarrow> int \<times> int" where
  "exact_digits x = (\<lfloor>x * 10 ^ 1074\<rfloor>, - 1074)"

fun shortest_digits :: "nat \<Rightarrow> nat \<Rightarrow> rat \<Rightarrow> int \<times> int" where
  "shortest_digits 0 k x = exact_digits x"
| "shortest_digits (Suc fuel) k x =
     (case digits_candidate k x of
        Some r \<Rightarrow> r
      | None \<Rightarrow> shortest_digits fuel (Suc k) x)"

text \<open>The rational that the decimal text of a finite number denotes.\<close>

definition number_to_decimal :: "rat \<Rightarrow> rat" where
  "number_to_decimal x =
     (if x = 0 then 0
      else let (s, p) = shortest_digits 17 1 \<bar>x\<bar> in sgn x * of_int s * 10 powi p)"

text \<open>
  The text of a positive number of magnitude \<open>10 ^ 21\<close> or more is in exponent notation:
  the significant digits, a point after the first, and the decimal exponent.
\<close>

definition exponent_str :: "rat \<Rightarrow> string" where
  "exponent_str x =
     (let (s, p) = shortest_digits 17 1 x;
          ds = digits10 (nat s);
          sig = rev (dropWhile (\<lambda>c. c = CHR ''0'') (rev ds));
          n = p + int (length ds)
      in (if length sig \<le> 1 then sig else hd sig # ''.'' @ tl sig)
         @ ''e+'' @ digits10 (nat (n - 1)))"

text \<open>
  \<^verbatim>\<open>x.toFixed(2)\<close>: the nearest number of hundredths, a tie going to the larger
  magnitude, printed with two decimals; exponent notation from \<open>10 ^ 21\<close> on.
\<close>

definition toFixed2 :: "number \<Rightarrow> string" where
  "toFixed2 v =
     (case v of
        NaN \<Rightarrow> ''NaN''
      | PosInfinity \<Rightarrow> ''Infinity''
      | NegInfinity \<Rightarrow> ''-Infinity''
      | Finite x \<Rightarrow>
          (if x < 0 then ''-'' else [])
          @ (if 10 ^ 21 \<le> \<bar>x\<bar> then exponent_str \<bar>x\<bar>
             else fixed2 (nat \<lfloor>\<bar>x\<bar> * 100 + 1 / 2\<rfloor>)))"


section \<open>The relational store\<close>

text \<open>
  The tables the order service touches, with the columns of their
  \<^verbatim>\<open>CREATE TABLE\<close> statements (the time stamps are left out). A column that is not
  declared \<^verbatim>\<open>NOT NULL\<close> is an option. Rows are kept in table order.
\<close>

record user =
  u_id :: int
  u_username :: string
  u_email :: string
  u_full_name :: "string option"

record cart =
  c_id :: int
  c_user_id :: int
  c_status :: "string option"

record cart_item =
  ci_id :: int
  ci_cart_id :: int
  ci_product_id :: int
  ci_quantity :: int
  ci_price_at_addition :: "decimal option"

record product =
  p_id :: int
  p_name :: string
  p_description :: "string option"
  p_price :: decimal
  p_stock_quantity :: "int option"
  p_category :: "string option"
  p_image_url :: "string option"

record order =
  o_id :: int
  o_user_id :: int
  o_cart_id :: int
  o_total_amount :: decimal
  o_status :: "string option"
  o_shipping_address :: "string option"
  o_payment_method :: "string option"

record order_item =
  oi_id :: int
  oi_order_id :: int
  oi_product_id :: int
  oi_product_name :: string
  oi_quantity :: int
  oi_price :: decimal
  oi_subtotal :: decimal

text \<open>
  The two \<^verbatim>\<open>AUTO_INCREMENT\<close> counters belong to the tables; a rolled back unit of
  work is taken to leave the whole store, counters included, as it was.
\<close>

record db =
  users :: "user list"
  carts :: "cart list"
  cart_items :: "cart_item list"
  products :: "product list"
  orders :: "order list"
  order_items :: "order_item list"
  orders_auto_increment :: int
  order_items_auto_increment :: int

subsection \<open>Request values and how the store reads them\<close>

text \<open>
  \<^verbatim>\<open>user_id\<close> and \<^verbatim>\<open>cart_id\<close> are whatever the JSON body holds: absent, or a JSON
  scalar (arrays and objects are left out). A JSON number is the double it reads as.
\<close>

datatype json = JUndefined | JNull | JBool bool | JNum rat | JStr string

text \<open>The truthiness that \<^verbatim>\<open>!user_id\<close> tests.\<close>

fun truthy :: "json \<Rightarrow> bool" where
  "truthy JUndefined = False"
| "truthy JNull = False"
| "truthy (JBool b) = b"
| "truthy (JNum r) = (r \<noteq> 0)"
| "truthy (JStr s) = (s \<noteq> [])"

text \<open>
  A text parameter compared with an \<^verbatim>\<open>INT\<close> column is read as a double from its
  numeric prefix: white space, a sign, digits, a fraction, an exponent; no digits read
  as zero. (For a text that is not wholly numeric the store also raises a warning, which
  strict mode turns into an error in a statement that writes. This is not modelled: an
  id that arrives as text is meant to be a numeric text.)
\<close>

definition is_space :: "char \<Rightarrow> bool" where
  "is_space c = (c \<in> set [CHR '' '', CHR 0x09, CHR 0x0A, CHR 0x0B, CHR 0x0C, CHR 0x0D])"

definition is_digit :: "char \<Rightarrow> bool" where
  "is_digit c = (c \<in> set ''0123456789'')"

definition digit_value :: "char \<Rightarrow> nat" where
  "digit_value c = of_char c - 48"

definition digits_value :: "string \<Rightarrow> nat" where
  "digits_value ds = foldl (\<lambda>a c. 10 * a + digit_value c) 0 ds"

definition strip_sign :: "string \<Rightarrow> bool \<times> string" where
  "strip_sign s =
     (case s of
        [] \<Rightarrow> (False, [])
      | c # cs \<Rightarrow>
          if c = CHR ''-'' then (True, cs)
          else if c = CHR ''+'' then (False, cs)
          else (False, s))"

definition exponent_value :: "string \<Rightarrow> int" where
  "exponent_value s =
     (case s of
        [] \<Rightarrow> 0
      | c # cs \<Rightarrow>
          if c = CHR ''e'' \<or> c = CHR ''E'' then
            (let (neg, ds) = strip_sign cs; n = int (digits_value (takeWhile is_digit ds))
             in if neg then - n else n)
          else 0)"

definition mysql_strtod :: "string \<Rightarrow> rat" where
  "mysql_strtod s =
     (let (neg, s1) = strip_sign (dropWhile is_space s);
          ip = takeWhile is_digit s1;
          s2 = dropWhile is_digit s1;
          has_point = (s2 \<noteq> [] \<and> hd s2 = CHR ''.'');
          fp = (if has_point then takeWhile is_digit (tl s2) else []);
          s3 = (if has_point then dropWhile is_digit (tl s2) else s2);
          m = of_nat (digits_value (ip @ fp)) / 10 ^ length fp * 10 powi exponent_value s3
      in if ip @ fp = [] then 0 else if neg then - m else m)"

text \<open>
  \<^verbatim>\<open>WHERE id = ?\<close> against an \<^verbatim>\<open>INT\<close> column. A number arrives as its decimal text,
  which denotes an integer only if the number is that integer; a boolean as
  \<^verbatim>\<open>true\<close>/\<^verbatim>\<open>false\<close>, that is 1 and 0; \<^verbatim>\<open>null\<close> and an absent value as
  \<^verbatim>\<open>NULL\<close>, which equals nothing.
\<close>

fun sql_eq :: "json \<Rightarrow> int \<Rightarrow> bool" where
  "sql_eq (JNum r) i = (r = of_int i)"
| "sql_eq (JStr s) i = (to_double (mysql_strtod s) = Finite (of_int i))"
| "sql_eq (JBool b) i = (i = (if b then 1 else 0))"
| "sql_eq JNull i = False"
| "sql_eq JUndefined i = False"

text \<open>The value an \<^verbatim>\<open>INT\<close> column takes from a parameter, \<open>None\<close> for \<^verbatim>\<open>NULL\<close>.\<close>

fun sql_int :: "json \<Rightarrow> int option" where
  "sql_int (JNum r) = Some (round_half_away r)"
| "sql_int (JStr s) =
     (case to_double (mysql_strtod s) of
        Finite d \<Rightarrow> Some (round_half_away d)
      | _ \<Rightarrow> None)"
| "sql_int (JBool b) = Some (if b then 1 else 0)"
| "sql_int JNull = None"
| "sql_int JUndefined = None"


subsection \<open>Statements of the order service\<close>

text \<open>
  A statement that the store rejects throws, and the handler answers 500 with the
  store's message. The store is taken in strict SQL mode, the server default: a value
  outside its column's range is rejected, excess decimals are rounded.
\<close>

datatype storage_error = BadField | OutOfRange | NullColumn

definition int_column :: "int \<Rightarrow> storage_error + int" where
  "int_column n = (if - 2147483648 \<le> n \<and> n \<le> 2147483647 then Inr n else Inl OutOfRange)"

definition decimal_10_2 :: "decimal \<Rightarrow> storage_error + decimal" where
  "decimal_10_2 c = (if \<bar>c\<bar> \<le> 9999999999 then Inr c else Inl OutOfRange)"

text \<open>
  A number bound to a \<^verbatim>\<open>DECIMAL(10, 2)\<close> column: mysql2 writes its text into the
  statement, and the store rounds the literal half away from zero. \<^verbatim>\<open>NaN\<close> and
  \<^verbatim>\<open>Infinity\<close> are written as bare words, which the store reads as unknown columns.
\<close>

definition number_to_decimal_10_2 :: "number \<Rightarrow> storage_error + decimal" where
  "number_to_decimal_10_2 v =
     (case v of
        Finite x \<Rightarrow> decimal_10_2 (round_half_away (number_to_decimal x * 100))
      | _ \<Rightarrow> Inl BadField)"

text \<open>
  The rows of \<^verbatim>\<open>cart_items ci JOIN products p ON ci.product_id = p.id WHERE ci.cart_id = ?\<close>,
  in the order of \<open>cart_items\<close>; \<open>subtotal\<close> is the store's exact
  \<^verbatim>\<open>ci.quantity * ci.price_at_addition\<close>.
\<close>

record cart_row =
  product_id :: int
  quantity :: int
  price_at_addition :: "decimal option"
  product_name :: string
  stock_quantity :: "int option"
  subtotal :: "decimal option"

definition join_row :: "cart_item \<Rightarrow> product \<Rightarrow> cart_row" where
  "join_row ci p =
     \<lparr>product_id = ci_product_id ci,
      quantity = ci_quantity ci,
      price_at_addition = ci_price_at_addition ci,
      product_name = p_name p,
      stock_quantity = p_stock_quantity p,
      subtotal = map_option (\<lambda>price. ci_quantity ci * price) (ci_price_at_addition ci)\<rparr>"

definition select_cart_items :: "db \<Rightarrow> json \<Rightarrow> cart_row list" where
  "select_cart_items d cart_id =
     concat (map (\<lambda>ci. map (join_row ci) (filter (\<lambda>p. ci_product_id ci = p_id p) (products d)))
                 (filter (\<lambda>ci. sql_eq cart_id (ci_cart_id ci)) (cart_items d)))"

text \<open>
  \<^verbatim>\<open>INSERT INTO orders (user_id, cart_id, total_amount, status, shipping_address, payment_method)\<close>;
  the result is the \<^verbatim>\<open>insertId\<close> and the new store. (The foreign keys hold where the
  handler runs it: the user and the cart have just been read.)
\<close>

definition insert_order ::
  "db \<Rightarrow> json \<Rightarrow> json \<Rightarrow> number \<Rightarrow> string \<Rightarrow> string option \<Rightarrow> string option
     \<Rightarrow> storage_error + (int \<times> db)" where
  "insert_order d user_id cart_id total_amount status shipping_address payment_method =
     (case sql_int user_id of None \<Rightarrow> Inl NullColumn | Some u \<Rightarrow>
     (case sql_int cart_id of None \<Rightarrow> Inl NullColumn | Some c \<Rightarrow>
     (case int_column u of Inl e \<Rightarrow> Inl e | Inr u' \<Rightarrow>
     (case int_column c of Inl e \<Rightarrow> Inl e | Inr c' \<Rightarrow>
     (case number_to_decimal_10_2 total_amount of Inl e \<Rightarrow> Inl e | Inr t \<Rightarrow>
        Inr (orders_auto_increment d,
             d\<lparr>orders := orders d @
                  [\<lparr>o_id = orders_auto_increment d, o_user_id = u', o_cart_id = c',
                    o_total_amount = t, o_status = Some status,
                    o_shipping_address = shipping_address,
                    o_payment_method = payment_method\<rparr>],
               orders_auto_increment := orders_auto_increment d + 1\<rparr>))))))"

text \<open>
  \<^verbatim>\<open>INSERT INTO order_items (order_id, product_id, product_name, quantity, price, subtotal)\<close>
  with the fields of one cart row.
\<close>

definition insert_order_item :: "db \<Rightarrow> int \<Rightarrow> cart_row \<Rightarrow> storage_error + db" where
  "insert_order_item d orderId item =
     (case price_at_addition item of None \<Rightarrow> Inl NullColumn | Some price \<Rightarrow>
     (case subtotal item of None \<Rightarrow> Inl NullColumn | Some sub \<Rightarrow>
     (case decimal_10_2 price of Inl e \<Rightarrow> Inl e | Inr price' \<Rightarrow>
     (case decimal_10_2 sub of Inl e \<Rightarrow> Inl e | Inr sub' \<Rightarrow>
        Inr (d\<lparr>order_items := order_items d @
                  [\<lparr>oi_id = order_items_auto_increment d, oi_order_id = orderId,
                    oi_product_id = product_id item, oi_product_name = product_name item,
                    oi_quantity = quantity item, oi_price = price', oi_subtotal = sub'\<rparr>],
               order_items_auto_increment := order_items_auto_increment d + 1\<rparr>)))))"

text \<open>
  \<^verbatim>\<open>UPDATE products SET stock_quantity = stock_quantity - ? WHERE id = ?\<close>: no condition
  on the stock; the statement fails only if a result leaves the \<^verbatim>\<open>INT\<close> range.
\<close>

definition decrement :: "int \<Rightarrow> product \<Rightarrow> product" where
  "decrement amount p = p\<lparr>p_stock_quantity := map_option (\<lambda>s. s - amount) (p_stock_quantity p)\<rparr>"

definition stock_in_range :: "product \<Rightarrow> bool" where
  "stock_in_range p =
     (case p_stock_quantity p of
        None \<Rightarrow> True
      | Some s \<Rightarrow> - 2147483648 \<le> s \<and> s \<le> 2147483647)"

definition update_product_stock :: "db \<Rightarrow> int \<Rightarrow> int \<Rightarrow> storage_error + db" where
  "update_product_stock d amount productId =
     (let ps = map (\<lambda>p. if p_id p = productId then decrement amount p else p) (products d)
      in if list_all (\<lambda>p. p_id p = productId \<longrightarrow> stock_in_range (decrement amount p)) (products d)
         then Inr (d\<lparr>products := ps\<rparr>)
         else Inl OutOfRange)"

text \<open>\<^verbatim>\<open>UPDATE carts SET status = "ordered" WHERE id = ?\<close>\<close>

definition update_cart_status :: "db \<Rightarrow> json \<Rightarrow> db" where
  "update_cart_status d cart_id =
     d\<lparr>carts := map (\<lambda>c. if sql_eq cart_id (c_id c) then c\<lparr>c_status := Some ''ordered''\<rparr> else c)
                     (carts d)\<rparr>"


section \<open>Placing an order\<close>

text \<open>
  The body of \<^verbatim>\<open>POST /orders\<close>. The two free texts are kept as given, \<open>None\<close> when
  absent (the length limit of \<^verbatim>\<open>payment_method\<close> is not modelled).
\<close>

record request =
  user_id :: json
  cart_id :: json
  shipping_address :: "string option"
  payment_method :: "string option"

record item_json =
  j_product_id :: int
  j_product_name :: string
  j_quantity :: int
  j_price :: "string option"
  j_subtotal :: "string option"

record order_json =
  j_id :: int
  j_user_id :: json
  j_cart_id :: json
  j_total_amount :: string
  j_status :: string
  j_items :: "item_json list"

text \<open>
  The answers of \<^verbatim>\<open>POST /orders\<close>: \<open>ErrorJson code msg\<close> is
  \<^verbatim>\<open>res.status(code).json({error: msg})\<close>; \<open>InsufficientStock\<close> is the 400 that carries
  \<^verbatim>\<open>product\<close>, \<^verbatim>\<open>available\<close> and \<^verbatim>\<open>requested\<close>; \<open>OrderPlaced\<close> is the 201;
  \<open>Failed\<close> is the 500 of the \<^verbatim>\<open>catch\<close> block.
\<close>

datatype response =
    ErrorJson nat string
  | InsufficientStock string "int option" int
  | OrderPlaced order_json
  | Failed storage_error

fun status_code :: "response \<Rightarrow> nat" where
  "status_code (ErrorJson code msg) = code"
| "status_code (InsufficientStock product available requested) = 400"
| "status_code (OrderPlaced order) = 201"
| "status_code (Failed e) = 500"

text \<open>
  \<^verbatim>\<open>item.stock_quantity < item.quantity\<close>; a \<^verbatim>\<open>NULL\<close> stock is \<^verbatim>\<open>null\<close>, which
  compares as 0.
\<close>

definition stock_less :: "int option \<Rightarrow> int \<Rightarrow> bool" where
  "stock_less stock requested = (case stock of None \<Rightarrow> 0 < requested | Some s \<Rightarrow> s < requested)"

text \<open>The stock loop: the first row whose stock is short, if any.\<close>

fun verify_stock :: "cart_row list \<Rightarrow> cart_row option" where
  "verify_stock [] = None"
| "verify_stock (item # items) =
     (if stock_less (stock_quantity item) (quantity item) then Some item else verify_stock items)"

text \<open>\<^verbatim>\<open>cartItems.reduce((sum, item) => sum + parseFloat(item.subtotal), 0)\<close>\<close>

definition totalAmount :: "cart_row list \<Rightarrow> number" where
  "totalAmount cartItems = foldl (\<lambda>sum item. num_add sum (parseFloat (subtotal item))) (Finite 0) cartItems"

text \<open>The second loop: one order item and one stock update per row, in order.\<close>

fun insert_items :: "db \<Rightarrow> int \<Rightarrow> cart_row list \<Rightarrow> storage_error + db" where
  "insert_items d orderId [] = Inr d"
| "insert_items d orderId (item # items) =
     (case insert_order_item d orderId item of
        Inl e \<Rightarrow> Inl e
      | Inr d1 \<Rightarrow>
          (case update_product_stock d1 (quantity item) (product_id item) of
             Inl e \<Rightarrow> Inl e
           | Inr d2 \<Rightarrow> insert_items d2 orderId items))"

definition item_to_json :: "cart_row \<Rightarrow> item_json" where
  "item_to_json item =
     \<lparr>j_product_id = product_id item,
      j_product_name = product_name item,
      j_quantity = quantity item,
      j_price = map_option decimal_str (price_at_addition item),
      j_subtotal = map_option decimal_str (subtotal item)\<rparr>"

text \<open>
  The handler of \<^verbatim>\<open>POST /orders\<close>. It returns the answer and the store after the
  request: the store it was given when the unit of work is rolled back, the store after
  the last statement when it commits.
\<close>

definition PlaceOrder :: "db \<Rightarrow> request \<Rightarrow> response \<times> db" where
  "PlaceOrder d req =
     (if \<not> truthy (user_id req) \<or> \<not> truthy (cart_id req) then
        (ErrorJson 400 ''user_id and cart_id are required'', d)
      else if length (filter (\<lambda>u. sql_eq (user_id req) (u_id u)) (users d)) = 0 then
        (ErrorJson 404 ''User not found'', d)
      else
        (case filter (\<lambda>c. sql_eq (cart_id req) (c_id c) \<and> c_status c = Some ''active'') (carts d) of
           [] \<Rightarrow> (ErrorJson 404 ''Cart not found or not active'', d)
         | cart0 # _ \<Rightarrow>
             if JNum (of_int (c_user_id cart0)) \<noteq> user_id req then
               (ErrorJson 403 ''Cart does not belong to this user'', d)
             else
               (let cartItems = select_cart_items d (cart_id req) in
                if length cartItems = 0 then (ErrorJson 400 ''Cart is empty'', d)
                else
                  (case verify_stock cartItems of
                     Some item \<Rightarrow>
                       (InsufficientStock (product_name item) (stock_quantity item) (quantity item), d)
                   | None \<Rightarrow>
                       (case insert_order d (user_id req) (cart_id req) (totalAmount cartItems)
                               ''pending'' (shipping_address req) (payment_method req) of
                          Inl e \<Rightarrow> (Failed e, d)
                        | Inr (orderId, d1) \<Rightarrow>
                            (case insert_items d1 orderId cartItems of
                               Inl e \<Rightarrow> (Failed e, d)
                             | Inr d2 \<Rightarrow>
                                 (OrderPlaced
                                    \<lparr>j_id = orderId,
                                     j_user_id = user_id req,
                                     j_cart_id = cart_id req,
                                     j_total_amount = toFixed2 (totalAmount cartItems),
                                     j_status = ''pending'',
                                     j_items = map item_to_json cartItems\<rparr>,
                                  update_cart_status d2 (cart_id req))))))))"


section \<open>Updating the status of an order\<close>








section \<open>Conditions and example stores\<close>

text \<open>
  The six validation failures of a checkout: an id missing, no such user, no active cart
  with that id, a cart of another user, no cart rows, a row whose stock is short.
\<close>

definition validation_fails :: "db \<Rightarrow> request \<Rightarrow> bool" where
  "validation_fails d req \<longleftrightarrow>
     \<not> truthy (user_id req) \<or> \<not> truthy (cart_id req)
     \<or> filter (\<lambda>u. sql_eq (user_id req) (u_id u)) (users d) = []
     \<or> (case filter (\<lambda>c. sql_eq (cart_id req) (c_id c) \<and> c_status c = Some ''active'') (carts d) of
           [] \<Rightarrow> True
         | cart0 # _ \<Rightarrow> JNum (of_int (c_user_id cart0)) \<noteq> user_id req)
     \<or> select_cart_items d (cart_id req) = []
     \<or> list_ex (\<lambda>item. stock_less (stock_quantity item) (quantity item))
          (select_cart_items d (cart_id req))"

text \<open>The request passes the first five validations, so the stock loop runs.\<close>

definition reaches_stock_check :: "db \<Rightarrow> request \<Rightarrow> bool" where
  "reaches_stock_check d req \<longleftrightarrow>
     truthy (user_id req) \<and> truthy (cart_id req)
     \<and> filter (\<lambda>u. sql_eq (user_id req) (u_id u)) (users d) \<noteq> []
     \<and> (case filter (\<lambda>c. sql_eq (cart_id req) (c_id c) \<and> c_status c = Some ''active'') (carts d) of
           [] \<Rightarrow> False
         | cart0 # _ \<Rightarrow> JNum (of_int (c_user_id cart0)) = user_id req)
     \<and> select_cart_items d (cart_id req) \<noteq> []"

text \<open>
  A small store: two users, a cart of each, and in cart 7 two of product A and one of
  product B, at the given prices of addition. The stocks and the status of cart 7 vary.
\<close>

definition shop_at :: "decimal \<Rightarrow> decimal \<Rightarrow> int option \<Rightarrow> int option \<Rightarrow> string option \<Rightarrow> db" where
  "shop_at priceA priceB stockA stockB cart_status =
     \<lparr>users = [\<lparr>u_id = 1, u_username = ''ann'', u_email = ''ann@example.org'', u_full_name = None\<rparr>,
               \<lparr>u_id = 2, u_username = ''bob'', u_email = ''bob@example.org'', u_full_name = None\<rparr>],
      carts = [\<lparr>c_id = 7, c_user_id = 1, c_status = cart_status\<rparr>,
               \<lparr>c_id = 8, c_user_id = 2, c_status = Some ''active''\<rparr>],
      cart_items =
        [\<lparr>ci_id = 1, ci_cart_id = 7, ci_product_id = 10, ci_quantity = 2,
          ci_price_at_addition = Some priceA\<rparr>,
         \<lparr>ci_id = 2, ci_cart_id = 7, ci_product_id = 11, ci_quantity = 1,
          ci_price_at_addition = Some priceB\<rparr>],
      products =
        [\<lparr>p_id = 10, p_name = ''productA'', p_description = None, p_price = priceA,
          p_stock_quantity = stockA, p_category = None, p_image_url = None\<rparr>,
         \<lparr>p_id = 11, p_name = ''productB'', p_description = None, p_price = priceB,
          p_stock_quantity = stockB, p_category = None, p_image_url = None\<rparr>],
      orders = [], order_items = [], orders_auto_increment = 1,
      order_items_auto_increment = 1\<rparr>"

text \<open>The store of the specification's example: product A at 9.99, product B at 15.00.\<close>

definition shop :: "int option \<Rightarrow> int option \<Rightarrow> string option \<Rightarrow> db" where
  "shop = shop_at 999 1500"

definition checkout :: "json \<Rightarrow> json \<Rightarrow> request" where
  "checkout u c =
     \<lparr>user_id = u, cart_id = c, shipping_address = Some ''1 Main Street'',
      payment_method = Some ''card''\<rparr>"

text \<open>A store in which the ids 0 are taken: user 0 owns the active cart 0.\<close>

definition zero_shop :: db where
  "zero_shop =
     \<lparr>users = [\<lparr>u_id = 0, u_username = ''zed'', u_email = ''zed@example.org'', u_full_name = None\<rparr>],
      carts = [\<lparr>c_id = 0, c_user_id = 0, c_status = Some ''active''\<rparr>],
      cart_items =
        [\<lparr>ci_id = 1, ci_cart_id = 0, ci_product_id = 10, ci_quantity = 1,
          ci_price_at_addition = Some 999\<rparr>],
      products =
        [\<lparr>p_id = 10, p_name = ''productA'', p_description = None, p_price = 999,
          p_stock_quantity = Some 5, p_category = None, p_image_url = None\<rparr>],
      orders = [], order_items = [], orders_auto_increment = 1,
      order_items_auto_increment = 1\<rparr>"


text \<open>
  The keys of the schema that the checkout relies on: \<^verbatim>\<open>products.id\<close> is a primary
  key, \<^verbatim>\<open>(cart_id, product_id)\<close> is unique in \<^verbatim>\<open>cart_items\<close>, and
  \<^verbatim>\<open>cart_items.product_id\<close> references a product.
\<close>

definition schema_keys :: "db \<Rightarrow> bool" where
  "schema_keys d \<longleftrightarrow>
     distinct (map p_id (products d))
     \<and> distinct (map (\<lambda>ci. (ci_cart_id ci, ci_product_id ci)) (cart_items d))
     \<and> list_all (\<lambda>ci. ci_product_id ci \<in> set (map p_id (products d))) (cart_items d)"

text \<open>No product has a negative stock (a \<^verbatim>\<open>NULL\<close> stock is no number).\<close>

definition stock_nonneg :: "db \<Rightarrow> bool" where
  "stock_nonneg d \<longleftrightarrow>
     list_all (\<lambda>p. case p_stock_quantity p of None \<Rightarrow> True | Some s \<Rightarrow> 0 \<le> s) (products d)"

text \<open>The exact sum of quantity times price of addition over the rows, in hundredths.\<close>

definition exact_total :: "cart_row list \<Rightarrow> decimal" where
  "exact_total items = sum_list (map (\<lambda>item. quantity item * the (price_at_addition item)) items)"

text \<open>What the second loop leaves behind: the rows it appends, and the products it updates.\<close>

fun new_order_items :: "int \<Rightarrow> int \<Rightarrow> cart_row list \<Rightarrow> order_item list" where
  "new_order_items next_id orderId [] = []"
| "new_order_items next_id orderId (item # items) =
     \<lparr>oi_id = next_id, oi_order_id = orderId, oi_product_id = product_id item,
      oi_product_name = product_name item, oi_quantity = quantity item,
      oi_price = the (price_at_addition item), oi_subtotal = the (subtotal item)\<rparr>
     # new_order_items (next_id + 1) orderId items"

fun decremented :: "product list \<Rightarrow> cart_row list \<Rightarrow> product list" where
  "decremented ps [] = ps"
| "decremented ps (item # items) =
     decremented
       (map (\<lambda>p. if p_id p = product_id item then decrement (quantity item) p else p) ps) items"


text \<open>
  The answer and the store that the specification's example expects: total "34.98", line
  subtotals "19.98" and "15.00", cart 7 ordered, the stocks 5 and 1 down to 3 and 0.
\<close>

definition example_order :: order_json where
  "example_order =
     \<lparr>j_id = 1, j_user_id = JNum 1, j_cart_id = JNum 7, j_total_amount = ''34.98'',
      j_status = ''pending'',
      j_items =
        [\<lparr>j_product_id = 10, j_product_name = ''productA'', j_quantity = 2,
          j_price = Some ''9.99'', j_subtotal = Some ''19.98''\<rparr>,
         \<lparr>j_product_id = 11, j_product_name = ''productB'', j_quantity = 1,
          j_price = Some ''15.00'', j_subtotal = Some ''15.00''\<rparr>]\<rparr>"

definition example_after :: db where
  "example_after =
     (shop (Some 3) (Some 0) (Some ''ordered''))
       \<lparr>orders :=
          [\<lparr>o_id = 1, o_user_id = 1, o_cart_id = 7, o_total_amount = 3498,
            o_status = Some ''pending'', o_shipping_address = Some ''1 Main Street'',
            o_payment_method = Some ''card''\<rparr>],
        order_items :=
          [\<lparr>oi_id = 1, oi_order_id = 1, oi_product_id = 10, oi_product_name = ''productA'',
            oi_quantity = 2, oi_price = 999, oi_subtotal = 1998\<rparr>,
           \<lparr>oi_id = 2, oi_order_id = 1, oi_product_id = 11, oi_product_name = ''productB'',
            oi_quantity = 1, oi_price = 1500, oi_subtotal = 1500\<rparr>],
        orders_auto_increment := 2, order_items_auto_increment := 3\<rparr>"

section \<open>Properties\<close>

lemmas store_eval = shop_def shop_at_def zero_shop_def checkout_def PlaceOrder_def select_cart_items_def
  join_row_def stock_less_def validation_fails_def reaches_stock_check_def Let_def

subsection \<open>Rounding to a double\<close>

text \<open>The binary exponent brackets its argument, and rounding moves by at most half a unit.\<close>

lemma ilog2_lower:
  assumes "0 < x"
  shows "2 powi (ilog2 x) \<le> x"
proof (cases "1 \<le> x")
  case True
  then have n: "0 < \<lfloor>x\<rfloor>" by simp
  from n have nn: "0 \<le> bitlen \<lfloor>x\<rfloor> - 1"
    by (simp add: bitlen_alt_def)
  from bitlen_bounds[OF n] have "(2::int) ^ nat (bitlen \<lfloor>x\<rfloor> - 1) \<le> \<lfloor>x\<rfloor>" by simp
  then have "of_int ((2::int) ^ nat (bitlen \<lfloor>x\<rfloor> - 1)) \<le> (of_int \<lfloor>x\<rfloor> :: rat)"
    by (simp only: of_int_le_iff)
  also have "\<dots> \<le> x" by (rule of_int_floor_le)
  finally have "(2::rat) ^ nat (bitlen \<lfloor>x\<rfloor> - 1) \<le> x" by simp
  moreover have "ilog2 x = bitlen \<lfloor>x\<rfloor> - 1" using True by (simp add: ilog2_def)
  ultimately show ?thesis using nn by (simp add: power_int_nonneg_exp)
next
  case False
  let ?j = "bitlen (\<lceil>1 / x\<rceil> - 1)"
  from False assms have "1 < 1 / x" by simp
  then have m: "0 < \<lceil>1 / x\<rceil> - 1" by (simp add: less_ceiling_iff)
  from bitlen_bounds[OF m] have "\<lceil>1 / x\<rceil> - 1 < 2 ^ nat ?j" by simp
  then have "\<lceil>1 / x\<rceil> \<le> 2 ^ nat ?j" by simp
  then have "(of_int \<lceil>1 / x\<rceil> :: rat) \<le> of_int (2 ^ nat ?j)"
    by (simp only: of_int_le_iff)
  moreover have "1 / x \<le> of_int \<lceil>1 / x\<rceil>" by (rule le_of_int_ceiling)
  ultimately have "1 / x \<le> of_int (2 ^ nat ?j)" by (rule order_trans[rotated])
  then have "1 / x \<le> 2 ^ nat ?j" by simp
  then have "1 / 2 ^ nat ?j \<le> x"
    using assms by (simp add: field_simps)
  moreover have "(2::rat) powi (- ?j) = 1 / 2 ^ nat ?j"
    using bitlen_nonneg[of "\<lceil>1 / x\<rceil> - 1"]
    by (simp add: power_int_minus power_int_nonneg_exp inverse_eq_divide)
  moreover have "ilog2 x = - ?j" using False by (simp add: ilog2_def)
  ultimately show ?thesis by simp
qed

lemma ilog2_upper:
  assumes "0 < x"
  shows "x < 2 powi (ilog2 x + 1)"
proof (cases "1 \<le> x")
  case True
  then have n: "0 < \<lfloor>x\<rfloor>" by simp
  from bitlen_bounds[OF n] have "\<lfloor>x\<rfloor> + 1 \<le> (2::int) ^ nat (bitlen \<lfloor>x\<rfloor>)" by simp
  then have "(of_int (\<lfloor>x\<rfloor> + 1) :: rat) \<le> of_int ((2::int) ^ nat (bitlen \<lfloor>x\<rfloor>))"
    by (simp only: of_int_le_iff)
  moreover have "x < of_int (\<lfloor>x\<rfloor> + 1)" using floor_correct[of x] by simp
  ultimately have "x < of_int ((2::int) ^ nat (bitlen \<lfloor>x\<rfloor>))" by (rule less_le_trans[rotated])
  then have "x < (2::rat) ^ nat (bitlen \<lfloor>x\<rfloor>)" by simp
  moreover have "ilog2 x + 1 = bitlen \<lfloor>x\<rfloor>" using True by (simp add: ilog2_def)
  ultimately show ?thesis using bitlen_nonneg[of "\<lfloor>x\<rfloor>"] by (simp add: power_int_nonneg_exp)
next
  case False
  let ?j = "bitlen (\<lceil>1 / x\<rceil> - 1)"
  from False assms have "1 < 1 / x" by simp
  then have m: "0 < \<lceil>1 / x\<rceil> - 1" by (simp add: less_ceiling_iff)
  from m have j: "0 \<le> ?j - 1" by (simp add: bitlen_alt_def)
  from bitlen_bounds[OF m] have "(2::int) ^ nat (?j - 1) \<le> \<lceil>1 / x\<rceil> - 1" by simp
  then have "(of_int ((2::int) ^ nat (?j - 1)) :: rat) \<le> of_int (\<lceil>1 / x\<rceil> - 1)"
    by (simp only: of_int_le_iff)
  moreover have "(of_int (\<lceil>1 / x\<rceil> - 1) :: rat) < 1 / x"
    using ceiling_correct[of "1 / x"] by simp
  ultimately have "(of_int ((2::int) ^ nat (?j - 1)) :: rat) < 1 / x" by (rule le_less_trans)
  then have "(2::rat) ^ nat (?j - 1) < 1 / x" by simp
  then have "x < 1 / 2 ^ nat (?j - 1)"
    using assms by (simp add: field_simps)
  moreover have "(2::rat) powi (- (?j - 1)) = 1 / 2 ^ nat (?j - 1)"
    using j by (simp only: power_int_minus power_int_nonneg_exp inverse_eq_divide)
  moreover have "ilog2 x + 1 = - (?j - 1)" using False by (simp add: ilog2_def)
  ultimately show ?thesis by simp
qed

lemma round_half_even_bound: "\<bar>of_int (round_half_even y) - y\<bar> \<le> 1 / 2"
proof -
  have a: "of_int \<lfloor>y\<rfloor> \<le> y" and b: "y < of_int \<lfloor>y\<rfloor> + 1"
    by linarith+
  show ?thesis
  proof (cases "y - of_int \<lfloor>y\<rfloor> < 1 / 2")
    case True
    then have "round_half_even y = \<lfloor>y\<rfloor>" by (simp add: round_half_even_def)
    with a True show ?thesis by simp
  next
    case False
    show ?thesis
    proof (cases "1 / 2 < y - of_int \<lfloor>y\<rfloor>")
      case True
      with False have "round_half_even y = \<lfloor>y\<rfloor> + 1" by (simp add: round_half_even_def)
      with b True show ?thesis by simp
    next
      case F2: False
      with False have h: "y - of_int \<lfloor>y\<rfloor> = 1 / 2" by simp
      have "round_half_even y = \<lfloor>y\<rfloor> \<or> round_half_even y = \<lfloor>y\<rfloor> + 1"
        by (simp add: round_half_even_def Let_def)
      with h show ?thesis by auto
    qed
  qed
qed


lemma to_double_zero: "to_double 0 = Finite 0"
  by (simp add: to_double_def)

lemma to_double_Finite:
  assumes "to_double x = Finite r" and "x \<noteq> 0"
  shows "r = of_int (round_half_even (x / 2 powi (max (ilog2 \<bar>x\<bar> - 52) (- 1074))))
               * 2 powi (max (ilog2 \<bar>x\<bar> - 52) (- 1074))"
  using assms unfolding to_double_def Let_def
  by (simp split: if_splits)

lemma round_to_quantum:
  fixes q :: rat
  assumes "0 < q"
  shows "\<bar>of_int (round_half_even (x / q)) * q - x\<bar> \<le> q / 2"
proof -
  have "of_int (round_half_even (x / q)) * q - x = (of_int (round_half_even (x / q)) - x / q) * q"
    using assms by (simp add: field_simps)
  then have "\<bar>of_int (round_half_even (x / q)) * q - x\<bar>
               = \<bar>of_int (round_half_even (x / q)) - x / q\<bar> * q"
    using assms by (simp add: abs_mult)
  also have "\<dots> \<le> 1 / 2 * q"
    using round_half_even_bound[of "x / q"] assms by (intro mult_right_mono) simp_all
  finally show ?thesis by simp
qed

lemma quantum_le:
  assumes "0 < x"
  shows "2 powi (ilog2 x - 52) / 2 \<le> x / 2 ^ 53"
proof -
  have "(2::rat) powi (ilog2 x - 52) = 2 powi (ilog2 x) / 2 ^ 52"
    by (simp add: power_int_diff)
  then have "(2::rat) powi (ilog2 x - 52) / 2 = 2 powi (ilog2 x) / 2 ^ 53" by simp
  also have "\<dots> \<le> x / 2 ^ 53"
    using ilog2_lower[OF assms] by (simp add: divide_right_mono)
  finally show ?thesis .
qed

lemma to_double_error:
  assumes "to_double x = Finite r"
  shows "\<bar>r - x\<bar> \<le> \<bar>x\<bar> / 2 ^ 53 + 2 powi (- 1075)"
proof (cases "x = 0")
  case True
  with assms show ?thesis by (simp add: to_double_zero)
next
  case False
  let ?e = "ilog2 \<bar>x\<bar>"
  let ?q = "(2::rat) powi (max (?e - 52) (- 1074))"
  have q: "0 < ?q" by simp
  from to_double_Finite[OF assms False] have r: "r = of_int (round_half_even (x / ?q)) * ?q" .
  have "\<bar>r - x\<bar> \<le> ?q / 2" unfolding r by (rule round_to_quantum[OF q])
  also have "\<dots> \<le> \<bar>x\<bar> / 2 ^ 53 + 2 powi (- 1075)"
  proof (cases "- 1074 \<le> ?e - 52")
    case True
    then have "max (?e - 52) (- 1074) = ?e - 52" by (rule max_absorb1)
    then have "?q = 2 powi (?e - 52)" by (simp only:)
    with quantum_le[of "\<bar>x\<bar>"] False have "?q / 2 \<le> \<bar>x\<bar> / 2 ^ 53" by simp
    moreover have "(0::rat) \<le> 2 powi (- 1075)" by simp
    ultimately show ?thesis by linarith
  next
    case F: False
    then have "max (?e - 52) (- 1074) = - 1074" by (intro max_absorb2) linarith
    then have "?q = 2 powi (- 1074)" by (simp only:)
    moreover have "(2::rat) powi (- 1074) / 2 = 2 powi (- 1075)"
      using power_int_diff[of "2::rat" "- 1074" 1] by simp
    moreover have "0 \<le> \<bar>x\<bar> / 2 ^ 53" by simp
    ultimately show ?thesis by linarith
  qed
  finally show ?thesis .
qed

lemma to_double_normal:
  assumes lo: "2 powi (- 1022) \<le> \<bar>x\<bar>" and hi: "\<bar>x\<bar> \<le> 2 ^ 1000"
  shows "\<exists>r. to_double x = Finite r \<and> \<bar>r - x\<bar> \<le> \<bar>x\<bar> / 2 ^ 53"
proof -
  let ?e = "ilog2 \<bar>x\<bar>"
  let ?q = "(2::rat) powi (?e - 52)"
  let ?r = "of_int (round_half_even (x / ?q)) * ?q"
  have "(0::rat) < 2 powi (- 1022)" by simp
  with lo have pos: "0 < \<bar>x\<bar>" by linarith
  then have nz: "x \<noteq> 0" by simp
  have e: "- 1022 \<le> ?e"
  proof (rule ccontr)
    assume "\<not> - 1022 \<le> ?e"
    then have "?e + 1 \<le> - 1022" by simp
    then have "(2::rat) powi (?e + 1) \<le> 2 powi (- 1022)"
      by (intro power_int_increasing) simp_all
    with ilog2_upper[OF pos] lo show False by linarith
  qed
  then have m: "max (?e - 52) (- 1074) = ?e - 52" by (intro max_absorb1) linarith
  have q: "0 < ?q" by simp
  have err: "\<bar>?r - x\<bar> \<le> \<bar>x\<bar> / 2 ^ 53"
    using round_to_quantum[OF q, of x] quantum_le[OF pos] by linarith
  have "\<bar>?r\<bar> \<le> \<bar>x\<bar> + \<bar>x\<bar> / 2 ^ 53" using err by linarith
  also have "\<dots> \<le> 2 * \<bar>x\<bar>" by simp
  also have "\<dots> \<le> 2 * 2 ^ 1000" using hi by simp
  also have "\<dots> < (2::rat) powi 1024" by simp
  finally have "\<not> 2 powi 1024 \<le> \<bar>?r\<bar>" by simp
  then have "to_double x = Finite ?r"
    using nz m unfolding to_double_def Let_def by simp
  with err show ?thesis by blast
qed

subsection \<open>The decimal text is close to the number\<close>

lemma digits_candidate_reads_back:
  assumes "digits_candidate k x = Some (s, p)"
  shows "to_double (of_int s * 10 powi p) = Finite x"
  using assms unfolding digits_candidate_def Let_def
  by (auto split: if_splits)

lemma reads_back_close:
  fixes a d x t :: rat
  assumes "d \<le> a / 2 ^ 53 + t" "a \<le> x + d" "0 \<le> t" "0 \<le> x"
  shows "d \<le> x / 2 ^ 52 + 2 * t"
  using assms by simp

lemma floor_scaled_close:
  fixes x N :: rat
  assumes "0 < N"
  shows "\<bar>of_int \<lfloor>x * N\<rfloor> / N - x\<bar> \<le> 1 / N"
proof -
  have "of_int \<lfloor>x * N\<rfloor> \<le> x * N" "x * N < of_int \<lfloor>x * N\<rfloor> + 1" by linarith+
  then have "\<bar>of_int \<lfloor>x * N\<rfloor> - x * N\<bar> \<le> 1" by linarith
  then have "\<bar>of_int \<lfloor>x * N\<rfloor> - x * N\<bar> / N \<le> 1 / N"
    using assms by (intro divide_right_mono) simp_all
  moreover have "\<bar>of_int \<lfloor>x * N\<rfloor> - x * N\<bar> / N = \<bar>(of_int \<lfloor>x * N\<rfloor> - x * N) / N\<bar>"
    using assms by (simp add: abs_divide)
  moreover have "(of_int \<lfloor>x * N\<rfloor> - x * N) / N = of_int \<lfloor>x * N\<rfloor> / N - x"
    using assms by (simp add: diff_divide_distrib)
  ultimately show ?thesis by simp
qed

lemma exact_expansion_close:
  fixes x :: rat
  shows "\<bar>of_int \<lfloor>x * 10 ^ n\<rfloor> * 10 powi (- int n) - x\<bar> \<le> 2 powi (- int n)"
proof -
  have a: "(10::rat) powi (- int n) = 1 / 10 ^ n" "(2::rat) powi (- int n) = 1 / 2 ^ n"
    by (simp_all add: power_int_minus inverse_eq_divide)
  have "\<bar>of_int \<lfloor>x * 10 ^ n\<rfloor> / 10 ^ n - x\<bar> \<le> 1 / 10 ^ n"
    by (rule floor_scaled_close) simp
  also have "(1::rat) / 10 ^ n \<le> 1 / 2 ^ n"
    by (intro divide_left_mono power_mono) simp_all
  finally show ?thesis unfolding a by simp
qed

lemma exact_digits_close:
  assumes "exact_digits x = (s, p)"
  shows "\<bar>of_int s * 10 powi p - x\<bar> \<le> 2 powi (- 1074)"
proof -
  from assms have s: "s = \<lfloor>x * 10 ^ 1074\<rfloor>" and p: "p = - 1074"
    unfolding exact_digits_def by blast+
  have n: "- int 1074 = - 1074" by (simp only: of_nat_numeral)
  show ?thesis unfolding s p using exact_expansion_close[of x 1074] unfolding n .
qed

lemma two_powi_double: "2 * (2::rat) powi (n - 1) = 2 powi n"
  using power_int_minus_mult[of "2::rat" n] by (simp add: mult.commute)

lemma shortest_digits_close:
  assumes "0 < x"
  shows "shortest_digits fuel k x = (s, p) \<Longrightarrow>
           \<bar>of_int s * 10 powi p - x\<bar> \<le> x / 2 ^ 52 + 2 powi (- 1074)"
proof (induction fuel arbitrary: k)
  case 0
  define t :: rat where "t = 2 powi (- 1074)"
  from 0 have "exact_digits x = (s, p)" by simp
  from exact_digits_close[OF this] have "\<bar>of_int s * 10 powi p - x\<bar> \<le> t"
    unfolding t_def .
  moreover have "0 \<le> x / 2 ^ 52" using assms by simp
  ultimately show ?case unfolding t_def[symmetric] by linarith
next
  case (Suc fuel)
  show ?case
  proof (cases "digits_candidate k x")
    case None
    with Suc.prems have "shortest_digits fuel (Suc k) x = (s, p)" by simp
    then show ?thesis by (rule Suc.IH)
  next
    case (Some r)
    with Suc.prems have "digits_candidate k x = Some (s, p)" by simp
    then have rb: "to_double (of_int s * 10 powi p) = Finite x"
      by (rule digits_candidate_reads_back)
    define c :: rat where "c = of_int s * 10 powi p"
    define t :: rat where "t = 2 powi (- 1075)"
    have t2: "2 * t = 2 powi (- 1074)"
      unfolding t_def using two_powi_double[of "- 1074"] by simp
    from to_double_error[OF rb] have "\<bar>x - c\<bar> \<le> \<bar>c\<bar> / 2 ^ 53 + t"
      unfolding c_def t_def .
    then have "\<bar>c - x\<bar> \<le> \<bar>c\<bar> / 2 ^ 53 + t"
      by (simp only: abs_minus_commute)
    moreover have "\<bar>c\<bar> \<le> x + \<bar>c - x\<bar>" using assms by linarith
    moreover have "0 \<le> t" unfolding t_def by simp
    moreover have "0 \<le> x" using assms by simp
    ultimately have "\<bar>c - x\<bar> \<le> x / 2 ^ 52 + 2 * t"
      by (rule reads_back_close)
    then show ?thesis unfolding t2 c_def .
  qed
qed

subsection \<open>The running sum\<close>

text \<open>
  One addition of the loop: with \<open>u = 2 ^ -53\<close>, a partial sum within \<open>a * T1\<close> of the exact
  \<open>T1\<close> and a term within \<open>u\<close> relative error give a new partial sum within
  \<open>(a + 3 * u) * T\<close> of the exact \<open>T\<close>, for sums of non-negative terms.
\<close>

lemma add_step:
  fixes s p s' T1 T a u :: rat
  assumes T1: "0 \<le> T1" "T1 \<le> T" and a: "0 \<le> a" and u: "0 \<le> u" and au: "a + u \<le> 1"
    and s: "\<bar>s - T1\<bar> \<le> a * T1"
    and p: "\<bar>p - (T - T1)\<bar> \<le> u * (T - T1)"
    and s': "\<bar>s' - (s + p)\<bar> \<le> u * \<bar>s + p\<bar>"
  shows "\<bar>s' - T\<bar> \<le> (a + 3 * u) * T"
proof -
  have T: "0 \<le> T" using T1 by simp
  have 1: "a * T1 \<le> a * T" using T1 a by (intro mult_left_mono)
  have 2: "u * (T - T1) \<le> u * T" using T1 u by (intro mult_left_mono) simp_all
  have 3: "\<bar>s + p - T\<bar> \<le> a * T + u * T" using s p 1 2 by linarith
  then have 4: "\<bar>s + p\<bar> \<le> T + (a * T + u * T)" using T by linarith
  have "u * \<bar>s + p\<bar> \<le> u * (T + (a * T + u * T))" using 4 u by (intro mult_left_mono)
  also have "\<dots> = u * T + (a + u) * (u * T)" by (simp add: algebra_simps)
  also have "\<dots> \<le> u * T + 1 * (u * T)"
    using au u T by (intro add_left_mono mult_right_mono) simp_all
  finally have 5: "u * \<bar>s + p\<bar> \<le> 2 * (u * T)" by (simp add: mult.commute)
  have "\<bar>s' - T\<bar> \<le> \<bar>s' - (s + p)\<bar> + \<bar>s + p - T\<bar>" by linarith
  also have "\<dots> \<le> 2 * (u * T) + (a * T + u * T)" using s' 5 3 by linarith
  also have "\<dots> = (a + 3 * u) * T" by (simp add: algebra_simps)
  finally show ?thesis .
qed

lemma add_step_lower:
  fixes s p T1 T a u :: rat
  assumes T1: "0 \<le> T1" "T1 \<le> T" and a: "0 \<le> a" and u: "0 \<le> u" and au: "a + u \<le> 1 / 2"
    and s: "\<bar>s - T1\<bar> \<le> a * T1"
    and p: "\<bar>p - (T - T1)\<bar> \<le> u * (T - T1)"
  shows "T / 2 \<le> s + p \<and> s + p \<le> 2 * T"
proof -
  have T: "0 \<le> T" using T1 by simp
  have 1: "a * T1 \<le> a * T" using T1 a by (intro mult_left_mono)
  have 2: "u * (T - T1) \<le> u * T" using T1 u by (intro mult_left_mono) simp_all
  have 3: "\<bar>s + p - T\<bar> \<le> a * T + u * T" using s p 1 2 by linarith
  have "a * T + u * T = (a + u) * T" by (simp add: algebra_simps)
  also have "\<dots> \<le> 1 / 2 * T" using au T by (intro mult_right_mono)
  finally have "a * T + u * T \<le> T / 2" by simp
  with 3 show ?thesis by linarith
qed

lemma tiny_le: "(2::rat) powi (- 1022) \<le> 1 / 200"
proof -
  have "(2::rat) powi (- 1022) \<le> 2 powi (- 8)"
    by (intro power_int_increasing) simp_all
  also have "\<dots> \<le> 1 / 200" by (simp add: power_int_minus)
  finally show ?thesis .
qed

lemma huge_ge: "2 * (10::rat) ^ 16 \<le> 2 ^ 1000"
proof -
  have "2 * (10::rat) ^ 16 \<le> 2 ^ 64" by simp
  also have "\<dots> \<le> 2 ^ 1000" by (intro power_increasing) simp_all
  finally show ?thesis .
qed

lemma below_huge:
  fixes x :: rat
  assumes "x \<le> 2 * 10 ^ 16"
  shows "x \<le> 2 ^ 1000"
  using assms huge_ge by (rule order_trans)

lemma parseFloat_close:
  assumes "0 \<le> c" "of_int c / 100 \<le> (10::rat) ^ 16"
  shows "\<exists>p. parseFloat (Some c) = Finite p
            \<and> \<bar>p - of_int c / 100\<bar> \<le> 1 / 2 ^ 53 * (of_int c / 100)"
proof (cases "c = 0")
  case True
  then show ?thesis by (simp add: parseFloat_def to_double_zero)
next
  case False
  with assms have "1 \<le> c" by simp
  then have "(1::rat) \<le> of_int c" by simp
  then have lo: "1 / 200 \<le> (of_int c :: rat) / 100" by simp
  then have pos: "\<bar>(of_int c :: rat) / 100\<bar> = of_int c / 100" by simp
  have "2 powi (- 1022) \<le> \<bar>(of_int c :: rat) / 100\<bar>"
    using lo tiny_le unfolding pos by (rule order_trans[rotated])
  moreover have "\<bar>(of_int c :: rat) / 100\<bar> \<le> 2 ^ 1000"
  proof (rule below_huge)
    have "(0::rat) \<le> 10 ^ 16" by simp
    with assms(2) show "\<bar>(of_int c :: rat) / 100\<bar> \<le> 2 * 10 ^ 16"
      unfolding pos by linarith
  qed
  ultimately obtain r where "to_double (of_int c / 100) = Finite r"
      "\<bar>r - of_int c / 100\<bar> \<le> \<bar>(of_int c :: rat) / 100\<bar> / 2 ^ 53"
    using to_double_normal by blast
  then show ?thesis unfolding pos by (simp add: parseFloat_def)
qed

lemma num_add_step:
  assumes k: "3 * of_nat k + 1 \<le> (2::rat) ^ 52"
    and C: "0 \<le> C" and c: "0 \<le> c" and bound: "of_int (C + c) / 100 \<le> (10::rat) ^ 16"
    and s: "\<bar>s - of_int C / 100\<bar> \<le> 3 * of_nat k / 2 ^ 53 * (of_int C / 100)"
  shows "\<exists>s'. num_add (Finite s) (parseFloat (Some c)) = Finite s'
           \<and> \<bar>s' - of_int (C + c) / 100\<bar> \<le> 3 * of_nat (Suc k) / 2 ^ 53 * (of_int (C + c) / 100)"
proof -
  define T1 :: rat where "T1 = of_int C / 100"
  define T :: rat where "T = of_int (C + c) / 100"
  define a :: rat where "a = 3 * of_nat k / 2 ^ 53"
  define u :: rat where "u = 1 / 2 ^ 53"
  have "T = T1 + of_int c / 100" by (simp add: T_def T1_def add_divide_distrib)
  then have TT: "T - T1 = of_int c / 100" by simp
  have T1: "0 \<le> T1" "T1 \<le> T" using C c by (simp_all add: T_def T1_def)
  have a: "0 \<le> a" and u: "0 \<le> u" by (simp_all add: a_def u_def)
  have au: "a + u \<le> 1 / 2"
  proof -
    have "a + u = (3 * of_nat k + 1) / 2 ^ 53" by (simp add: a_def u_def add_divide_distrib)
    also have "\<dots> \<le> 2 ^ 52 / 2 ^ 53" using k by (intro divide_right_mono) simp_all
    finally show ?thesis by simp
  qed
  have "of_int c / 100 \<le> (10::rat) ^ 16"
    using bound C by (simp add: field_simps)
  from parseFloat_close[OF c this] obtain p where
    p: "parseFloat (Some c) = Finite p" "\<bar>p - (T - T1)\<bar> \<le> u * (T - T1)"
    unfolding TT u_def by blast
  have s1: "\<bar>s - T1\<bar> \<le> a * T1" using s by (simp add: a_def T1_def)
  from add_step_lower[OF T1 a u au s1 p(2)] have x: "T / 2 \<le> s + p" "s + p \<le> 2 * T"
    by simp_all
  have "\<exists>s'. to_double (s + p) = Finite s' \<and> \<bar>s' - (s + p)\<bar> \<le> u * \<bar>s + p\<bar>"
  proof (cases "C + c = 0")
    case True
    then have "T = 0" by (simp add: T_def)
    with x have "s + p = 0" by simp
    then show ?thesis by (simp add: to_double_zero)
  next
    case False
    with C c have "1 \<le> C + c" by simp
    then have "(1::rat) \<le> of_int (C + c)" by (simp only: of_int_1_le_iff)
    then have "1 / 100 \<le> T" by (simp add: T_def)
    with x have lo: "1 / 200 \<le> s + p" by simp
    then have pos: "\<bar>s + p\<bar> = s + p" by simp
    have "2 powi (- 1022) \<le> \<bar>s + p\<bar>"
      using lo tiny_le unfolding pos by (rule order_trans[rotated])
    moreover have "\<bar>s + p\<bar> \<le> 2 ^ 1000"
    proof (rule below_huge)
      from bound have "T \<le> 10 ^ 16" by (simp only: T_def)
      with x(2) show "\<bar>s + p\<bar> \<le> 2 * 10 ^ 16" unfolding pos by linarith
    qed
    ultimately obtain r where "to_double (s + p) = Finite r"
      "\<bar>r - (s + p)\<bar> \<le> \<bar>s + p\<bar> / 2 ^ 53"
      using to_double_normal by blast
    then show ?thesis by (simp add: u_def)
  qed
  then obtain s' where s': "to_double (s + p) = Finite s'" "\<bar>s' - (s + p)\<bar> \<le> u * \<bar>s + p\<bar>"
    by blast
  from au have au1: "a + u \<le> 1" by simp
  from add_step[OF T1 a u au1 s1 p(2) s'(2)] have "\<bar>s' - T\<bar> \<le> (a + 3 * u) * T" .
  moreover have "a + 3 * u = 3 * of_nat (Suc k) / 2 ^ 53"
    by (simp add: a_def u_def add_divide_distrib algebra_simps)
  ultimately have "\<bar>s' - T\<bar> \<le> 3 * of_nat (Suc k) / 2 ^ 53 * T" by simp
  with s'(1) p(1) show ?thesis unfolding T_def by simp
qed

lemma sum_fold_close:
  assumes "\<forall>item \<in> set items. \<exists>c. subtotal item = Some c \<and> 0 \<le> c"
    and "0 \<le> C"
    and "of_int (C + sum_list (map (\<lambda>item. the (subtotal item)) items)) / 100 \<le> (10::rat) ^ 16"
    and "3 * of_nat (k + length items) + 1 \<le> (2::rat) ^ 52"
    and "\<bar>s - of_int C / 100\<bar> \<le> 3 * of_nat k / 2 ^ 53 * (of_int C / 100)"
  shows "\<exists>s'. foldl (\<lambda>sum item. num_add sum (parseFloat (subtotal item))) (Finite s) items = Finite s'
           \<and> \<bar>s' - of_int (C + sum_list (map (\<lambda>item. the (subtotal item)) items)) / 100\<bar>
               \<le> 3 * of_nat (k + length items) / 2 ^ 53
                  * (of_int (C + sum_list (map (\<lambda>item. the (subtotal item)) items)) / 100)"
  using assms
proof (induction items arbitrary: s C k)
  case Nil
  then show ?case by simp
next
  case (Cons item items)
  let ?rest = "sum_list (map (\<lambda>item. the (subtotal item)) items)"
  from Cons.prems(1) obtain c where c: "subtotal item = Some c" "0 \<le> c" by auto
  from Cons.prems(1) have rest_ok: "\<forall>item \<in> set items. \<exists>c. subtotal item = Some c \<and> 0 \<le> c"
    by simp
  then have rest: "0 \<le> ?rest" by (intro sum_list_nonneg) auto
  have total: "C + sum_list (map (\<lambda>item. the (subtotal item)) (item # items)) = C + c + ?rest"
    using c by simp
  have "(of_int (C + c) :: rat) \<le> of_int (C + c + ?rest)"
    using rest by simp
  then have "(of_int (C + c) :: rat) / 100 \<le> of_int (C + c + ?rest) / 100"
    by (intro divide_right_mono) simp_all
  with Cons.prems(3) have b1: "of_int (C + c) / 100 \<le> (10::rat) ^ 16"
    unfolding total by (rule order_trans[rotated])
  have "(3 * of_nat k + 1 :: rat) \<le> 3 * of_nat (k + length (item # items)) + 1" by simp
  with Cons.prems(4) have k1: "3 * of_nat k + 1 \<le> (2::rat) ^ 52" by (rule order_trans[rotated])
  from num_add_step[OF k1 Cons.prems(2) c(2) b1 Cons.prems(5)] obtain s1 where
    s1: "num_add (Finite s) (parseFloat (Some c)) = Finite s1"
        "\<bar>s1 - of_int (C + c) / 100\<bar> \<le> 3 * of_nat (Suc k) / 2 ^ 53 * (of_int (C + c) / 100)"
    by blast
  have C1: "0 \<le> C + c" using Cons.prems(2) c(2) by simp
  have b2: "of_int (C + c + ?rest) / 100 \<le> (10::rat) ^ 16"
    using Cons.prems(3) unfolding total .
  have k2: "3 * of_nat (Suc k + length items) + 1 \<le> (2::rat) ^ 52"
    using Cons.prems(4) by simp
  from Cons.IH[OF rest_ok C1 b2 k2 s1(2)] obtain s' where
    "foldl (\<lambda>sum item. num_add sum (parseFloat (subtotal item))) (Finite s1) items = Finite s'"
    "\<bar>s' - of_int (C + c + ?rest) / 100\<bar>
       \<le> 3 * of_nat (Suc k + length items) / 2 ^ 53 * (of_int (C + c + ?rest) / 100)"
    by blast
  then show ?case unfolding total using s1(1) c(1) by simp
qed

lemma totalAmount_close:
  assumes "\<forall>item \<in> set items. \<exists>c. subtotal item = Some c \<and> 0 \<le> c"
    and "of_int (sum_list (map (\<lambda>item. the (subtotal item)) items)) / 100 \<le> (10::rat) ^ 16"
    and "3 * of_nat (length items) + 1 \<le> (2::rat) ^ 52"
  shows "\<exists>s'. totalAmount items = Finite s'
           \<and> \<bar>s' - of_int (sum_list (map (\<lambda>item. the (subtotal item)) items)) / 100\<bar>
               \<le> 3 * of_nat (length items) / 2 ^ 53
                  * (of_int (sum_list (map (\<lambda>item. the (subtotal item)) items)) / 100)"
  using sum_fold_close[of items 0 0 0] assms unfolding totalAmount_def by simp

subsection \<open>From the sum to hundredths\<close>

lemma number_to_decimal_close:
  assumes "0 < x"
  shows "\<bar>number_to_decimal x - x\<bar> \<le> x / 2 ^ 52 + 2 powi (- 1074)"
proof -
  obtain s p where sp: "shortest_digits 17 1 \<bar>x\<bar> = (s, p)" by (cases "shortest_digits 17 1 \<bar>x\<bar>")
  from assms have ax: "\<bar>x\<bar> = x" by simp
  from assms sp have "number_to_decimal x = of_int s * 10 powi p"
    by (simp add: number_to_decimal_def)
  moreover from shortest_digits_close[OF assms] sp
  have "\<bar>of_int s * 10 powi p - x\<bar> \<le> x / 2 ^ 52 + 2 powi (- 1074)"
    unfolding ax by blast
  ultimately show ?thesis by (simp only:)
qed

lemma subnormal_le: "(2::rat) powi (- 1074) \<le> 1 / 2 ^ 60"
proof -
  have "(2::rat) powi (- 1074) \<le> 2 powi (- 60)"
    by (intro power_int_increasing) simp_all
  also have "\<dots> = 1 / 2 ^ 60" by (simp add: power_int_minus inverse_eq_divide)
  finally show ?thesis .
qed

text \<open>
  A number \<open>x\<close> within the relative error of a sum of up to 100000 terms of the
  decimal with \<open>S\<close> hundredths prints and is stored as that decimal.
\<close>

lemma close_to_cents:
  fixes x :: rat and S :: int
  assumes "0 \<le> S"
    and "\<bar>x - of_int S / 100\<bar> \<le> 300000 / 2 ^ 53 * (of_int S / 100)"
  shows "\<bar>x * 100 - of_int S\<bar> \<le> of_int S / 30000000000"
proof -
  have "x * 100 - of_int S = (x - of_int S / 100) * 100" by (simp add: algebra_simps)
  then have "\<bar>x * 100 - of_int S\<bar> = \<bar>x - of_int S / 100\<bar> * 100"
    by (simp only: abs_mult abs_numeral)
  also have "\<dots> \<le> 300000 / 2 ^ 53 * (of_int S / 100) * 100"
    using assms(2) by (intro mult_right_mono) simp_all
  also have "\<dots> = of_int S * (300000 / 2 ^ 53)" by simp
  also have "\<dots> \<le> of_int S * (1 / 30000000000)"
    using assms(1) by (intro mult_left_mono) simp_all
  finally show ?thesis by simp
qed

lemma floor_half: "\<lfloor>(1::rat) / 2\<rfloor> = 0"
  by (rule floor_unique) simp_all

lemma returned_cents:
  fixes x :: rat and S :: int
  assumes S: "0 \<le> S" "S \<le> 10300000000"
    and x: "\<bar>x - of_int S / 100\<bar> \<le> 300000 / 2 ^ 53 * (of_int S / 100)"
  shows "toFixed2 (Finite x) = decimal_str S"
proof -
  define R :: rat where "R = of_int S"
  have R: "0 \<le> R" "R \<le> 10300000000" using S unfolding R_def by simp_all
  from close_to_cents[OF S(1) x] have c: "\<bar>x * 100 - R\<bar> \<le> R / 30000000000" unfolding R_def .
  from c R have x0: "0 \<le> x" by linarith
  from c R have "x * 100 < 100000000000" by linarith
  then have "x < 10 ^ 21" by simp
  then have small: "\<not> 10 ^ 21 \<le> \<bar>x\<bar>" using x0 by simp
  from c R x0 have "R \<le> \<bar>x\<bar> * 100 + 1 / 2" "\<bar>x\<bar> * 100 + 1 / 2 < R + 1"
    by linarith+
  then have "\<lfloor>\<bar>x\<bar> * 100 + 1 / 2\<rfloor> = S" unfolding R_def by (intro floor_unique) simp_all
  with x0 small S show ?thesis
    by (simp add: toFixed2_def decimal_str_def)
qed

lemma stored_cents:
  fixes x :: rat and S :: int
  assumes S: "0 \<le> S" "S \<le> 10300000000"
    and x: "\<bar>x - of_int S / 100\<bar> \<le> 300000 / 2 ^ 53 * (of_int S / 100)"
  shows "round_half_away (number_to_decimal x * 100) = S"
proof (cases "S = 0")
  case True
  with x have "x = 0" by simp
  with True show ?thesis by (simp add: number_to_decimal_def round_half_away_def floor_half)
next
  case False
  define R :: rat where "R = of_int S"
  define D :: rat where "D = number_to_decimal x"
  define t :: rat where "t = 2 powi (- 1074)"
  from False S have "1 \<le> S" by simp
  then have R: "1 \<le> R" "R \<le> 10300000000" using S unfolding R_def by simp_all
  from close_to_cents[OF S(1) x] have c: "\<bar>x * 100 - R\<bar> \<le> R / 30000000000" unfolding R_def .
  from c R have x0: "0 < x" by linarith
  have t: "0 \<le> t" "t \<le> 1 / 2 ^ 60" unfolding t_def using subnormal_le by simp_all
  from number_to_decimal_close[OF x0] have "\<bar>D - x\<bar> \<le> x / 2 ^ 52 + t"
    unfolding D_def t_def .
  with t have d: "\<bar>D - x\<bar> \<le> x / 4503599627370496 + 1 / 1152921504606846976" by simp
  from c d R have "R \<le> D * 100 + 1 / 2" "D * 100 + 1 / 2 < R + 1" by linarith+
  then have "\<lfloor>D * 100 + 1 / 2\<rfloor> = S" unfolding R_def by (intro floor_unique) simp_all
  moreover from c d R have "\<not> D * 100 < 0" by linarith
  ultimately show ?thesis unfolding D_def by (simp add: round_half_away_def)
qed

lemma stored_in_range:
  fixes x :: rat and S :: int
  assumes S: "0 \<le> S"
    and x: "\<bar>x - of_int S / 100\<bar> \<le> 300000 / 2 ^ 53 * (of_int S / 100)"
    and r: "\<bar>round_half_away (number_to_decimal x * 100)\<bar> \<le> 9999999999"
  shows "S \<le> 10300000000"
proof (rule ccontr)
  assume "\<not> S \<le> 10300000000"
  then have "10300000000 < S" by simp
  define R :: rat where "R = of_int S"
  define D :: rat where "D = number_to_decimal x"
  define t :: rat where "t = 2 powi (- 1074)"
  from \<open>10300000000 < S\<close> have R: "10300000000 < R" unfolding R_def by simp
  from close_to_cents[OF S(1) x] have c: "\<bar>x * 100 - R\<bar> \<le> R / 30000000000" unfolding R_def .
  from c R have x0: "0 < x" by linarith
  have t: "0 \<le> t" "t \<le> 1 / 2 ^ 60" unfolding t_def using subnormal_le by simp_all
  from number_to_decimal_close[OF x0] have "\<bar>D - x\<bar> \<le> x / 2 ^ 52 + t"
    unfolding D_def t_def .
  with t have d: "\<bar>D - x\<bar> \<le> x / 4503599627370496 + 1 / 1152921504606846976" by simp
  from c d R have big: "10000000000 \<le> D * 100 + 1 / 2" by linarith
  then have "10000000000 \<le> \<lfloor>D * 100 + 1 / 2\<rfloor>" by (simp add: le_floor_iff)
  moreover from big have "\<not> D * 100 < 0" by simp
  ultimately have "10000000000 \<le> round_half_away (D * 100)"
    by (simp add: round_half_away_def)
  with r show False unfolding D_def by simp
qed

subsection \<open>The stock loop\<close>

lemma verify_stock_None:
  "verify_stock items = None \<longleftrightarrow>
     \<not> list_ex (\<lambda>item. stock_less (stock_quantity item) (quantity item)) items"
  by (induction items) auto

lemma verify_stock_Some:
  "verify_stock items = Some bad \<Longrightarrow>
     \<exists>pre post. items = pre @ bad # post \<and> stock_less (stock_quantity bad) (quantity bad)
        \<and> \<not> list_ex (\<lambda>item. stock_less (stock_quantity item) (quantity item)) pre"
proof (induction items)
  case Nil
  then show ?case by simp
next
  case (Cons item items)
  show ?case
  proof (cases "stock_less (stock_quantity item) (quantity item)")
    case True
    with Cons.prems have "bad = item" by simp
    with True show ?thesis by (intro exI[of _ "[]"] exI[of _ items]) auto
  next
    case False
    with Cons.prems have "verify_stock items = Some bad" by simp
    from Cons.IH[OF this] obtain pre post where
      "items = pre @ bad # post" "stock_less (stock_quantity bad) (quantity bad)"
      "\<not> list_ex (\<lambda>item. stock_less (stock_quantity item) (quantity item)) pre"
      by blast
    with False show ?thesis by (intro exI[of _ "item # pre"] exI[of _ post]) auto
  qed
qed

lemma verify_stock_first:
  "\<not> list_ex (\<lambda>item. stock_less (stock_quantity item) (quantity item)) pre \<Longrightarrow>
   stock_less (stock_quantity bad) (quantity bad) \<Longrightarrow>
   verify_stock (pre @ bad # post) = Some bad"
  by (induction pre) auto

lemma PlaceOrder_stock_check:
  "reaches_stock_check d req \<Longrightarrow>
   verify_stock (select_cart_items d (cart_id req)) = Some bad \<Longrightarrow>
   PlaceOrder d req =
     (InsufficientStock (product_name bad) (stock_quantity bad) (quantity bad), d)"
  unfolding reaches_stock_check_def PlaceOrder_def
  by (auto simp: Let_def split: list.splits)

subsection \<open>The store after a placed order\<close>

lemma PlaceOrder_placed:
  assumes "PlaceOrder d req = (OrderPlaced oj, d')"
  obtains d1 d2 where
    "reaches_stock_check d req"
    "verify_stock (select_cart_items d (cart_id req)) = None"
    "insert_order d (user_id req) (cart_id req) (totalAmount (select_cart_items d (cart_id req)))
       ''pending'' (shipping_address req) (payment_method req) = Inr (j_id oj, d1)"
    "insert_items d1 (j_id oj) (select_cart_items d (cart_id req)) = Inr d2"
    "d' = update_cart_status d2 (cart_id req)"
    "oj = \<lparr>j_id = j_id oj, j_user_id = user_id req, j_cart_id = cart_id req,
           j_total_amount = toFixed2 (totalAmount (select_cart_items d (cart_id req))),
           j_status = ''pending'',
           j_items = map item_to_json (select_cart_items d (cart_id req))\<rparr>"
  using assms unfolding PlaceOrder_def reaches_stock_check_def
  by (auto simp: Let_def split: if_splits list.splits option.splits sum.splits prod.splits)

lemma insert_order_Inr:
  assumes "insert_order d u c tot st sa pm = Inr (oid, d1)"
  obtains u' c' t where
    "sql_int u = Some u'" "sql_int c = Some c'" "number_to_decimal_10_2 tot = Inr t"
    "oid = orders_auto_increment d"
    "d1 = d\<lparr>orders := orders d @
              [\<lparr>o_id = orders_auto_increment d, o_user_id = u', o_cart_id = c',
                o_total_amount = t, o_status = Some st, o_shipping_address = sa,
                o_payment_method = pm\<rparr>],
            orders_auto_increment := orders_auto_increment d + 1\<rparr>"
  using assms unfolding insert_order_def int_column_def
  by (auto split: option.splits sum.splits if_splits)

lemma insert_order_item_Inr:
  assumes "insert_order_item d oid item = Inr d1"
  shows "price_at_addition item \<noteq> None" "subtotal item \<noteq> None"
    "\<bar>the (subtotal item)\<bar> \<le> 9999999999"
    "d1 = d\<lparr>order_items := order_items d @
              [\<lparr>oi_id = order_items_auto_increment d, oi_order_id = oid,
                oi_product_id = product_id item, oi_product_name = product_name item,
                oi_quantity = quantity item, oi_price = the (price_at_addition item),
                oi_subtotal = the (subtotal item)\<rparr>],
            order_items_auto_increment := order_items_auto_increment d + 1\<rparr>"
  using assms unfolding insert_order_item_def decimal_10_2_def
  by (auto split: option.splits sum.splits if_splits)

lemma update_product_stock_Inr:
  assumes "update_product_stock d amount pid = Inr d1"
  shows "d1 = d\<lparr>products := map (\<lambda>p. if p_id p = pid then decrement amount p else p) (products d)\<rparr>"
  using assms unfolding update_product_stock_def
  by (auto simp: Let_def split: if_splits)

lemma insert_items_Inr:
  "insert_items d oid items = Inr d2 \<Longrightarrow>
     d2 = d\<lparr>order_items := order_items d @ new_order_items (order_items_auto_increment d) oid items,
            order_items_auto_increment := order_items_auto_increment d + int (length items),
            products := decremented (products d) items\<rparr>
     \<and> (\<forall>item \<in> set items. price_at_addition item \<noteq> None \<and> subtotal item \<noteq> None
            \<and> \<bar>the (subtotal item)\<bar> \<le> 9999999999)"
proof (induction items arbitrary: d)
  case Nil
  then show ?case by simp
next
  case (Cons item items)
  from Cons.prems obtain da db where
    a: "insert_order_item d oid item = Inr da" and
    b: "update_product_stock da (quantity item) (product_id item) = Inr db" and
    c: "insert_items db oid items = Inr d2"
    by (auto split: sum.splits)
  note da = insert_order_item_Inr[OF a]
  note db = update_product_stock_Inr[OF b]
  from Cons.IH[OF c] da(1,2,3) show ?case
    by (simp add: da(4) db)
qed

lemma number_to_decimal_10_2_Inr:
  "number_to_decimal_10_2 v = Inr t \<Longrightarrow>
     \<exists>x. v = Finite x \<and> t = round_half_away (number_to_decimal x * 100) \<and> \<bar>t\<bar> \<le> 9999999999"
  unfolding number_to_decimal_10_2_def decimal_10_2_def
  by (auto split: number.splits if_splits)

lemma PlaceOrder_placed_store:
  assumes "PlaceOrder d req = (OrderPlaced oj, d')"
  obtains u c t where
    "sql_int (user_id req) = Some u" "sql_int (cart_id req) = Some c"
    "number_to_decimal_10_2 (totalAmount (select_cart_items d (cart_id req))) = Inr t"
    "j_id oj = orders_auto_increment d"
    "d' = d\<lparr>orders := orders d @
              [\<lparr>o_id = orders_auto_increment d, o_user_id = u, o_cart_id = c,
                o_total_amount = t, o_status = Some ''pending'',
                o_shipping_address = shipping_address req,
                o_payment_method = payment_method req\<rparr>],
            orders_auto_increment := orders_auto_increment d + 1,
            order_items := order_items d @
              new_order_items (order_items_auto_increment d) (orders_auto_increment d)
                (select_cart_items d (cart_id req)),
            order_items_auto_increment :=
              order_items_auto_increment d + int (length (select_cart_items d (cart_id req))),
            products := decremented (products d) (select_cart_items d (cart_id req)),
            carts := map (\<lambda>c. if sql_eq (cart_id req) (c_id c) then c\<lparr>c_status := Some ''ordered''\<rparr>
                               else c) (carts d)\<rparr>"
    "\<forall>item \<in> set (select_cart_items d (cart_id req)).
        price_at_addition item \<noteq> None \<and> subtotal item \<noteq> None
        \<and> \<bar>the (subtotal item)\<bar> \<le> 9999999999"
proof -
  from assms obtain d1 d2 where
    io: "insert_order d (user_id req) (cart_id req) (totalAmount (select_cart_items d (cart_id req)))
       ''pending'' (shipping_address req) (payment_method req) = Inr (j_id oj, d1)" and
    ii: "insert_items d1 (j_id oj) (select_cart_items d (cart_id req)) = Inr d2" and
    d': "d' = update_cart_status d2 (cart_id req)"
    by (rule PlaceOrder_placed)
  from io obtain u c t where
    o: "sql_int (user_id req) = Some u" "sql_int (cart_id req) = Some c"
       "number_to_decimal_10_2 (totalAmount (select_cart_items d (cart_id req))) = Inr t"
       "j_id oj = orders_auto_increment d"
       "d1 = d\<lparr>orders := orders d @
              [\<lparr>o_id = orders_auto_increment d, o_user_id = u, o_cart_id = c,
                o_total_amount = t, o_status = Some ''pending'',
                o_shipping_address = shipping_address req,
                o_payment_method = payment_method req\<rparr>],
            orders_auto_increment := orders_auto_increment d + 1\<rparr>"
    by (rule insert_order_Inr)
  note i = insert_items_Inr[OF ii]
  show ?thesis
  proof (rule that[OF o(1,2,3,4)])
    show "d' = d\<lparr>orders := orders d @
              [\<lparr>o_id = orders_auto_increment d, o_user_id = u, o_cart_id = c,
                o_total_amount = t, o_status = Some ''pending'',
                o_shipping_address = shipping_address req,
                o_payment_method = payment_method req\<rparr>],
            orders_auto_increment := orders_auto_increment d + 1,
            order_items := order_items d @
              new_order_items (order_items_auto_increment d) (orders_auto_increment d)
                (select_cart_items d (cart_id req)),
            order_items_auto_increment :=
              order_items_auto_increment d + int (length (select_cart_items d (cart_id req))),
            products := decremented (products d) (select_cart_items d (cart_id req)),
            carts := map (\<lambda>c. if sql_eq (cart_id req) (c_id c) then c\<lparr>c_status := Some ''ordered''\<rparr>
                               else c) (carts d)\<rparr>"
      unfolding d' using i o(4) by (simp add: o(5) update_cart_status_def)
    show "\<forall>item \<in> set (select_cart_items d (cart_id req)).
        price_at_addition item \<noteq> None \<and> subtotal item \<noteq> None
        \<and> \<bar>the (subtotal item)\<bar> \<le> 9999999999"
      using i by blast
  qed
qed


lemma decrement_id [simp]: "p_id (decrement amount p) = p_id p"
  by (simp add: decrement_def)

lemma decremented_map:
  "decremented ps items =
     map (\<lambda>p. p\<lparr>p_stock_quantity :=
                  map_option (\<lambda>s. s - sum_list (map quantity
                     (filter (\<lambda>item. product_id item = p_id p) items))) (p_stock_quantity p)\<rparr>) ps"
proof (induction items arbitrary: ps)
  case Nil
  show ?case by (induction ps) (simp_all add: option.map_ident)
next
  case (Cons item items)
  show ?case
    unfolding decremented.simps Cons.IH
    by (auto simp: decrement_def option.map_comp o_def algebra_simps intro!: arg_cong[where f="\<lambda>f. map_option f _"])
qed

lemma floor_int_half: "\<lfloor>(of_int i :: rat) + 1 / 2\<rfloor> = i"
  by (rule floor_unique) simp_all

lemma round_half_away_of_int: "round_half_away (of_int i) = i"
proof (cases "i < 0")
  case True
  have "\<lfloor>(of_int (- i) :: rat) + 1 / 2\<rfloor> = - i" by (rule floor_int_half)
  with True show ?thesis by (simp add: round_half_away_def)
next
  case False
  with floor_int_half[of i] show ?thesis by (simp add: round_half_away_def)
qed

lemma sql_eq_unique: "sql_eq v i \<Longrightarrow> sql_eq v j \<Longrightarrow> i = j"
  by (cases v) (auto split: if_splits)


lemma select_cart_items_row:
  assumes "item \<in> set (select_cart_items d cid)"
  obtains ci p where "ci \<in> set (cart_items d)" "sql_eq cid (ci_cart_id ci)"
    "p \<in> set (products d)" "p_id p = ci_product_id ci" "item = join_row ci p"
  using assms unfolding select_cart_items_def by auto

lemma row_subtotal:
  assumes "item \<in> set (select_cart_items d cid)"
  shows "subtotal item = map_option (\<lambda>price. quantity item * price) (price_at_addition item)"
  using assms by (elim select_cart_items_row) (simp add: join_row_def)

lemma unique_product:
  "distinct (map p_id ps) \<Longrightarrow> x \<in> set (map p_id ps) \<Longrightarrow>
     \<exists>p. filter (\<lambda>p. x = p_id p) ps = [p] \<and> p_id p = x \<and> p \<in> set ps"
proof (induction ps)
  case Nil
  then show ?case by simp
next
  case (Cons q ps)
  show ?case
  proof (cases "x = p_id q")
    case True
    with Cons.prems(1) have "filter (\<lambda>p. x = p_id p) ps = []"
      by (auto simp: filter_empty_conv)
    with True show ?thesis by simp
  next
    case False
    with Cons.prems have "x \<in> set (map p_id ps)" "distinct (map p_id ps)" by auto
    from Cons.IH[OF this(2,1)] False show ?thesis by auto
  qed
qed

lemma join_rows:
  assumes "distinct (map p_id ps)"
  shows "list_all (\<lambda>ci. ci_product_id ci \<in> set (map p_id ps)) xs \<Longrightarrow>
    list_all2 (\<lambda>ci item. \<exists>p \<in> set ps. p_id p = ci_product_id ci \<and> item = join_row ci p) xs
      (concat (map (\<lambda>ci. map (join_row ci) (filter (\<lambda>p. ci_product_id ci = p_id p) ps)) xs))"
proof (induction xs)
  case Nil
  then show ?case by simp
next
  case (Cons ci xs)
  from Cons.prems have "ci_product_id ci \<in> set (map p_id ps)" by simp
  from unique_product[OF assms this] obtain p where
    "filter (\<lambda>p. ci_product_id ci = p_id p) ps = [p]" "p_id p = ci_product_id ci" "p \<in> set ps"
    by blast
  moreover from Cons have "list_all2 (\<lambda>ci item. \<exists>p \<in> set ps. p_id p = ci_product_id ci \<and> item = join_row ci p) xs
      (concat (map (\<lambda>ci. map (join_row ci) (filter (\<lambda>p. ci_product_id ci = p_id p) ps)) xs))"
    by simp
  ultimately show ?case by auto
qed

lemma select_cart_items_lines:
  assumes "schema_keys d"
  shows "list_all2 (\<lambda>ci item. \<exists>p \<in> set (products d). p_id p = ci_product_id ci \<and> item = join_row ci p)
           (filter (\<lambda>ci. sql_eq cid (ci_cart_id ci)) (cart_items d))
           (select_cart_items d cid)"
proof -
  from assms have "distinct (map p_id (products d))"
    and "list_all (\<lambda>ci. ci_product_id ci \<in> set (map p_id (products d)))
           (filter (\<lambda>ci. sql_eq cid (ci_cart_id ci)) (cart_items d))"
    by (auto simp: schema_keys_def list_all_iff)
  from join_rows[OF this] show ?thesis unfolding select_cart_items_def .
qed

lemma distinct_second:
  "distinct (map (\<lambda>x. (f x, g x)) xs) \<Longrightarrow> (\<And>a b. P a \<Longrightarrow> P b \<Longrightarrow> a = b) \<Longrightarrow>
     distinct (map g (filter (\<lambda>x. P (f x)) xs))"
proof (induction xs)
  case Nil
  then show ?case by simp
next
  case (Cons x xs)
  from Cons.prems(1) have d: "distinct (map (\<lambda>x. (f x, g x)) xs)"
    and n: "(f x, g x) \<notin> set (map (\<lambda>x. (f x, g x)) xs)" by simp_all
  have IH: "distinct (map g (filter (\<lambda>x. P (f x)) xs))"
    using Cons.IH[OF d] Cons.prems(2) by blast
  show ?case
  proof (cases "P (f x)")
    case True
    have "g x \<notin> set (map g (filter (\<lambda>x. P (f x)) xs))"
    proof
      assume "g x \<in> set (map g (filter (\<lambda>x. P (f x)) xs))"
      then obtain y where y: "y \<in> set xs" "P (f y)" "g y = g x" by auto
      from Cons.prems(2)[OF True y(2)] have "f x = f y" .
      with y(1,3) n show False by (auto simp: image_iff)
    qed
    with True IH show ?thesis by simp
  next
    case False
    with IH show ?thesis by simp
  qed
qed

lemma select_cart_items_distinct:
  assumes "schema_keys d"
  shows "distinct (map product_id (select_cart_items d cid))"
proof -
  let ?lines = "filter (\<lambda>ci. sql_eq cid (ci_cart_id ci)) (cart_items d)"
  from select_cart_items_lines[OF assms, of cid]
  have "map product_id (select_cart_items d cid) = map ci_product_id ?lines"
  proof (induction rule: list_all2_induct)
    case Nil
    then show ?case by simp
  next
    case (Cons ci xs item ys)
    then show ?case by (auto simp: join_row_def)
  qed
  moreover from assms have "distinct (map (\<lambda>ci. (ci_cart_id ci, ci_product_id ci)) (cart_items d))"
    by (simp add: schema_keys_def)
  then have "distinct (map ci_product_id ?lines)"
    by (rule distinct_second) (rule sql_eq_unique)
  ultimately show ?thesis by simp
qed

lemma filter_distinct_key:
  "distinct (map f xs) \<Longrightarrow>
     filter (\<lambda>x. f x = a) xs = [] \<or> (\<exists>x \<in> set xs. f x = a \<and> filter (\<lambda>x. f x = a) xs = [x])"
proof (induction xs)
  case Nil
  then show ?case by simp
next
  case (Cons y xs)
  show ?case
  proof (cases "f y = a")
    case True
    with Cons.prems have "filter (\<lambda>x. f x = a) xs = []"
      by (auto simp: filter_empty_conv image_iff)
    with True show ?thesis by simp
  next
    case False
    with Cons show ?thesis by auto
  qed
qed

subsection \<open>Evaluating the examples\<close>

lemma floor_rat_numeral_div:
  "\<lfloor>(numeral a :: rat) / numeral b\<rfloor> = numeral a div numeral b"
  using floor_divide_of_int_eq [of "numeral a" "numeral b", where ?'a = rat] by simp

lemma floor_rat_neg_numeral_div:
  "\<lfloor>- ((numeral a :: rat) / numeral b)\<rfloor> = - numeral a div numeral b"
  using floor_divide_of_int_eq [of "- numeral a" "numeral b", where ?'a = rat] by simp

lemma ceiling_rat_numeral_div:
  "\<lceil>(numeral a :: rat) / numeral b\<rceil> = - (- numeral a div numeral b)"
  using floor_rat_neg_numeral_div [of a b] by (simp add: ceiling_def)

lemmas num_eval = to_double_def ilog2_def round_half_even_def Let_def compute_bitlen
  floor_rat_numeral_div floor_rat_neg_numeral_div ceiling_rat_numeral_div

lemma round_half_away_numeral:
  "round_half_away (numeral n) = numeral n" "round_half_away 1 = 1" "round_half_away 0 = 0"
  using round_half_away_of_int[of "numeral n"] round_half_away_of_int[of 1]
    round_half_away_of_int[of 0]
  by simp_all

lemma example_total:
  "totalAmount
     [\<lparr>product_id = 10, quantity = 2, price_at_addition = Some 999,
       product_name = ''productA'', stock_quantity = a, subtotal = Some 1998\<rparr>,
      \<lparr>product_id = 11, quantity = 1, price_at_addition = Some 1500,
       product_name = ''productB'', stock_quantity = b, subtotal = Some 1500\<rparr>]
     = Finite (2461498671334687 / 70368744177664)"
  by (simp add: totalAmount_def parseFloat_def num_eval)

lemma example_stored:
  "number_to_decimal_10_2 (Finite (2461498671334687 / 70368744177664)) = Inr 3498"
proof -
  have "round_half_away (number_to_decimal (2461498671334687 / 70368744177664) * 100) = 3498"
    by (rule stored_cents) simp_all
  then show ?thesis by (simp add: number_to_decimal_10_2_def decimal_10_2_def)
qed

lemma example_printed:
  "toFixed2 (Finite (2461498671334687 / 70368744177664)) = ''34.98''"
proof -
  have "toFixed2 (Finite (2461498671334687 / 70368744177664)) = decimal_str 3498"
    by (rule returned_cents) simp_all
  then show ?thesis by (simp add: decimal_str_def fixed2_def digit_char_def)
qed

lemma example_placed:
  "PlaceOrder (shop (Some 5) (Some 1) (Some ''active'')) (checkout (JNum 1) (JNum 7)) =
     (OrderPlaced
        \<lparr>j_id = 1, j_user_id = JNum 1, j_cart_id = JNum 7, j_total_amount = ''34.98'',
         j_status = ''pending'',
         j_items =
           [\<lparr>j_product_id = 10, j_product_name = ''productA'', j_quantity = 2,
             j_price = Some ''9.99'', j_subtotal = Some ''19.98''\<rparr>,
            \<lparr>j_product_id = 11, j_product_name = ''productB'', j_quantity = 1,
             j_price = Some ''15.00'', j_subtotal = Some ''15.00''\<rparr>]\<rparr>,
      (shop (Some 3) (Some 0) (Some ''ordered''))
        \<lparr>orders :=
           [\<lparr>o_id = 1, o_user_id = 1, o_cart_id = 7, o_total_amount = 3498,
             o_status = Some ''pending'', o_shipping_address = Some ''1 Main Street'',
             o_payment_method = Some ''card''\<rparr>],
         order_items :=
           [\<lparr>oi_id = 1, oi_order_id = 1, oi_product_id = 10, oi_product_name = ''productA'',
             oi_quantity = 2, oi_price = 999, oi_subtotal = 1998\<rparr>,
            \<lparr>oi_id = 2, oi_order_id = 1, oi_product_id = 11, oi_product_name = ''productB'',
             oi_quantity = 1, oi_price = 1500, oi_subtotal = 1500\<rparr>],
         orders_auto_increment := 2, order_items_auto_increment := 3\<rparr>)"
  by (simp add: store_eval example_total example_stored example_printed
      insert_order_def int_column_def round_half_away_numeral insert_order_item_def
      decimal_10_2_def update_product_stock_def decrement_def stock_in_range_def
      update_cart_status_def item_to_json_def decimal_str_def fixed2_def digit_char_def)

lemma example_checkout:
  "PlaceOrder (shop (Some 5) (Some 1) (Some ''active'')) (checkout (JNum 1) (JNum 7))
     = (OrderPlaced example_order, example_after)"
  unfolding example_order_def example_after_def by (rule example_placed)

lemma example_items:
  "select_cart_items (shop a b st) (JNum 7) =
     [\<lparr>product_id = 10, quantity = 2, price_at_addition = Some 999,
       product_name = ''productA'', stock_quantity = a, subtotal = Some 1998\<rparr>,
      \<lparr>product_id = 11, quantity = 1, price_at_addition = Some 1500,
       product_name = ''productB'', stock_quantity = b, subtotal = Some 1500\<rparr>]"
  by (simp add: store_eval)

lemma example_keys: "schema_keys (shop_at pa pb a b st)"
  by (simp add: schema_keys_def shop_at_def)

subsection \<open>Validation failures\<close>

text \<open>
  C1. A checkout that fails any validation step (an id missing, user not found, cart not
  found or not active, cart of another user, empty cart, insufficient stock) is answered
  with an error (400, 403 or 404) and the store after the request is the store before
  it: no order, no order item, no stock change, no cart status change.
\<close>

theorem validation_failure_leaves_store:
  "validation_fails d req \<Longrightarrow>
     status_code (fst (PlaceOrder d req)) \<in> {400, 403, 404} \<and> snd (PlaceOrder d req) = d"
  unfolding validation_fails_def PlaceOrder_def
  by (auto simp: Let_def verify_stock_None split: list.splits option.splits sum.splits)

theorem validation_failure_leaves_store_witness:
  "validation_fails (shop (Some 5) (Some 0) (Some ''active'')) (checkout (JNum 1) (JNum 7))
   \<and> status_code (fst (PlaceOrder (shop (Some 5) (Some 0) (Some ''active''))
                         (checkout (JNum 1) (JNum 7)))) = 400
   \<and> snd (PlaceOrder (shop (Some 5) (Some 0) (Some ''active'')) (checkout (JNum 1) (JNum 7)))
       = shop (Some 5) (Some 0) (Some ''active'')"
proof -
  have v: "validation_fails (shop (Some 5) (Some 0) (Some ''active''))
             (checkout (JNum 1) (JNum 7))"
    by (simp add: store_eval)
  have "status_code (fst (PlaceOrder (shop (Some 5) (Some 0) (Some ''active''))
          (checkout (JNum 1) (JNum 7)))) = 400"
    by (simp add: store_eval)
  with v validation_failure_leaves_store [OF v] show ?thesis by simp
qed

text \<open>
  C4. If the quantity of any cart row exceeds the stock of its product, the checkout
  fails with the insufficient-stock answer, which carries the name, the available
  quantity and the requested quantity of a row that is short; the store is unchanged,
  so no stock is decremented for any row, the sufficient ones included.
\<close>

theorem short_line_refuses_checkout:
  assumes "reaches_stock_check d req"
    and "item \<in> set (select_cart_items d (cart_id req))"
    and "stock_less (stock_quantity item) (quantity item)"
  shows "\<exists>bad \<in> set (select_cart_items d (cart_id req)).
           stock_less (stock_quantity bad) (quantity bad)
           \<and> PlaceOrder d req =
               (InsufficientStock (product_name bad) (stock_quantity bad) (quantity bad), d)"
proof -
  from assms(2,3) have "verify_stock (select_cart_items d (cart_id req)) \<noteq> None"
    by (auto simp: verify_stock_None list_ex_iff)
  then obtain bad where bad: "verify_stock (select_cart_items d (cart_id req)) = Some bad"
    by auto
  from verify_stock_Some[OF bad]
  have "bad \<in> set (select_cart_items d (cart_id req))"
    "stock_less (stock_quantity bad) (quantity bad)"
    by auto
  with PlaceOrder_stock_check[OF assms(1) bad] show ?thesis by blast
qed

theorem short_line_refuses_checkout_witness:
  "reaches_stock_check (shop (Some 5) (Some 0) (Some ''active'')) (checkout (JNum 1) (JNum 7))
   \<and> PlaceOrder (shop (Some 5) (Some 0) (Some ''active'')) (checkout (JNum 1) (JNum 7))
       = (InsufficientStock ''productB'' (Some 0) 1, shop (Some 5) (Some 0) (Some ''active''))
   \<and> map p_stock_quantity (products (snd (PlaceOrder (shop (Some 5) (Some 0) (Some ''active''))
         (checkout (JNum 1) (JNum 7))))) = [Some 5, Some 0]"
proof -
  let ?d = "shop (Some 5) (Some 0) (Some ''active'')"
  let ?req = "checkout (JNum 1) (JNum 7)"
  let ?a = "\<lparr>product_id = 10, quantity = 2, price_at_addition = Some 999,
             product_name = ''productA'', stock_quantity = Some 5, subtotal = Some 1998\<rparr>"
  let ?b = "\<lparr>product_id = 11, quantity = 1, price_at_addition = Some 1500,
             product_name = ''productB'', stock_quantity = Some 0, subtotal = Some 1500\<rparr>"
  have r: "reaches_stock_check ?d ?req"
    by (simp add: store_eval)
  have items: "select_cart_items ?d (cart_id ?req) = [?a, ?b]"
    by (simp add: store_eval)
  have "?b \<in> set (select_cart_items ?d (cart_id ?req))"
    by (simp add: items)
  moreover have "stock_less (stock_quantity ?b) (quantity ?b)"
    by (simp add: stock_less_def)
  ultimately obtain bad where bad: "bad \<in> set (select_cart_items ?d (cart_id ?req))"
      "stock_less (stock_quantity bad) (quantity bad)"
      "PlaceOrder ?d ?req = (InsufficientStock (product_name bad) (stock_quantity bad) (quantity bad), ?d)"
    using short_line_refuses_checkout [OF r] by blast
  from bad(1,2) have "bad = ?b"
    by (auto simp: items stock_less_def)
  with bad(3) have p: "PlaceOrder ?d ?req = (InsufficientStock ''productB'' (Some 0) 1, ?d)"
    by simp
  have "map p_stock_quantity (products ?d) = [Some 5, Some 0]"
    by (simp add: shop_def shop_at_def)
  with r p show ?thesis by simp
qed

text \<open>
  C9. When several cart rows are short of stock, the answer names the first short row in
  the order the rows are iterated, whatever follows it: the remaining short rows are not
  reported.
\<close>

theorem first_short_line_is_reported:
  assumes "reaches_stock_check d req"
    and "select_cart_items d (cart_id req) = pre @ bad # post"
    and "\<forall>item \<in> set pre. \<not> stock_less (stock_quantity item) (quantity item)"
    and "stock_less (stock_quantity bad) (quantity bad)"
  shows "PlaceOrder d req =
           (InsufficientStock (product_name bad) (stock_quantity bad) (quantity bad), d)"
proof -
  from assms(3)
  have "\<not> list_ex (\<lambda>item. stock_less (stock_quantity item) (quantity item)) pre"
    by (simp add: list_ex_iff)
  from verify_stock_first[OF this assms(4)] assms(2)
  have "verify_stock (select_cart_items d (cart_id req)) = Some bad" by simp
  from PlaceOrder_stock_check[OF assms(1) this] show ?thesis .
qed

theorem first_short_line_is_reported_witness:
  "PlaceOrder (shop (Some 1) (Some 0) (Some ''active'')) (checkout (JNum 1) (JNum 7))
     = (InsufficientStock ''productA'' (Some 1) 2, shop (Some 1) (Some 0) (Some ''active''))
   \<and> list_all (\<lambda>item. stock_less (stock_quantity item) (quantity item))
        (select_cart_items (shop (Some 1) (Some 0) (Some ''active'')) (JNum 7))"
proof -
  let ?d = "shop (Some 1) (Some 0) (Some ''active'')"
  let ?req = "checkout (JNum 1) (JNum 7)"
  let ?a = "\<lparr>product_id = 10, quantity = 2, price_at_addition = Some 999,
             product_name = ''productA'', stock_quantity = Some 1, subtotal = Some 1998\<rparr>"
  let ?b = "\<lparr>product_id = 11, quantity = 1, price_at_addition = Some 1500,
             product_name = ''productB'', stock_quantity = Some 0, subtotal = Some 1500\<rparr>"
  have r: "reaches_stock_check ?d ?req"
    by (simp add: store_eval)
  have items: "select_cart_items ?d (cart_id ?req) = [] @ ?a # [?b]"
    by (simp add: store_eval)
  have short: "stock_less (stock_quantity ?a) (quantity ?a)"
    by (simp add: stock_less_def)
  have "PlaceOrder ?d ?req = (InsufficientStock (product_name ?a) (stock_quantity ?a) (quantity ?a), ?d)"
    using first_short_line_is_reported [OF r items _ short] by simp
  moreover have "list_all (\<lambda>item. stock_less (stock_quantity item) (quantity item))
        (select_cart_items ?d (JNum 7))"
    using items by (simp add: checkout_def stock_less_def)
  ultimately show ?thesis by simp
qed

subsection \<open>The presence check\<close>

text \<open>
  C10. The presence check takes every falsy value for a missing one: the falsy request
  values are the absent value, \<^verbatim>\<open>null\<close>, \<^verbatim>\<open>false\<close>, the number 0 and the
  empty string, and a request whose \<^verbatim>\<open>user_id\<close> or \<^verbatim>\<open>cart_id\<close> is one of them is
  answered 400 whatever the store holds, so before any lookup: also when a user 0 and a
  cart 0 exist.
\<close>

theorem falsy_ids_are_missing:
  "(\<not> truthy v \<longleftrightarrow> v \<in> {JUndefined, JNull, JBool False, JNum 0, JStr []})
   \<and> (\<not> truthy (user_id req) \<or> \<not> truthy (cart_id req) \<longrightarrow>
        PlaceOrder d req = (ErrorJson 400 ''user_id and cart_id are required'', d))"
  by (cases v) (auto simp: PlaceOrder_def)

theorem falsy_ids_are_missing_witness:
  "PlaceOrder zero_shop (checkout (JNum 0) (JNum 0))
     = (ErrorJson 400 ''user_id and cart_id are required'', zero_shop)
   \<and> filter (\<lambda>u. sql_eq (JNum 0) (u_id u)) (users zero_shop) \<noteq> []
   \<and> filter (\<lambda>c. sql_eq (JNum 0) (c_id c) \<and> c_status c = Some ''active'') (carts zero_shop) \<noteq> []"
proof -
  have "\<not> truthy (user_id (checkout (JNum 0) (JNum 0)))"
    by (simp add: checkout_def)
  with falsy_ids_are_missing [of "JNum 0" "checkout (JNum 0) (JNum 0)" zero_shop]
  have "PlaceOrder zero_shop (checkout (JNum 0) (JNum 0))
     = (ErrorJson 400 ''user_id and cart_id are required'', zero_shop)" by blast
  then show ?thesis by (simp add: zero_shop_def)
qed


subsection \<open>A placed order\<close>





lemma placed_products:
  assumes "PlaceOrder d req = (OrderPlaced oj, d')"
  shows "products d' =
           map (\<lambda>p. p\<lparr>p_stock_quantity :=
                  map_option (\<lambda>s. s - sum_list (map quantity
                     (filter (\<lambda>item. product_id item = p_id p)
                        (select_cart_items d (cart_id req))))) (p_stock_quantity p)\<rparr>)
               (products d)"
  using assms by (elim PlaceOrder_placed_store) (simp add: decremented_map)

lemma placed_carts:
  assumes "PlaceOrder d req = (OrderPlaced oj, d')"
  shows "carts d' =
           map (\<lambda>c. if sql_eq (cart_id req) (c_id c) then c\<lparr>c_status := Some ''ordered''\<rparr> else c)
               (carts d)"
  using assms by (elim PlaceOrder_placed_store) simp

lemma placed_total:
  assumes "PlaceOrder d req = (OrderPlaced oj, d')"
  shows "\<exists>t. number_to_decimal_10_2 (totalAmount (select_cart_items d (cart_id req))) = Inr t
           \<and> o_total_amount (last (orders d')) = t
           \<and> j_total_amount oj = toFixed2 (totalAmount (select_cart_items d (cart_id req)))"
proof -
  from assms obtain d1 d2 where
    "oj = \<lparr>j_id = j_id oj, j_user_id = user_id req, j_cart_id = cart_id req,
           j_total_amount = toFixed2 (totalAmount (select_cart_items d (cart_id req))),
           j_status = ''pending'',
           j_items = map item_to_json (select_cart_items d (cart_id req))\<rparr>"
    by (rule PlaceOrder_placed)
  then have "j_total_amount oj = toFixed2 (totalAmount (select_cart_items d (cart_id req)))"
    by (metis order_json.select_convs(4))
  with assms show ?thesis by (elim PlaceOrder_placed_store) simp
qed







subsection \<open>Stock\<close>

lemma PlaceOrder_cases:
  "PlaceOrder d req = (r, d') \<Longrightarrow> d' = d \<or> (\<exists>oj. r = OrderPlaced oj)"
  unfolding PlaceOrder_def
  by (auto simp: Let_def split: if_splits list.splits option.splits sum.splits prod.splits)

lemma PlaceOrder_not_placed:
  assumes "\<And>oj. fst (PlaceOrder d req) \<noteq> OrderPlaced oj"
  shows "snd (PlaceOrder d req) = d"
proof -
  obtain r d' where p: "PlaceOrder d req = (r, d')" by (cases "PlaceOrder d req")
  from PlaceOrder_cases[OF p] assms[unfolded p] show ?thesis unfolding p by auto
qed

lemma distinct_key_eq:
  "distinct (map f xs) \<Longrightarrow> x \<in> set xs \<Longrightarrow> y \<in> set xs \<Longrightarrow> f x = f y \<Longrightarrow> x = y"
  by (meson distinct_map inj_onD)


text \<open>
  C3, as amended. Under the keys of the schema, a checkout keeps every stock
  non-negative, and it refuses to proceed, with the insufficient-stock answer and the
  store unchanged, whenever the quantity of a cart row exceeds the stock of its product.
  The stock update itself has no condition: run on a stock of 1 with an amount of 2 it
  succeeds and the stock becomes -1.
\<close>

theorem checkout_keeps_stock_nonneg:
  assumes keys: "schema_keys d" and nonneg: "stock_nonneg d"
  shows "stock_nonneg (snd (PlaceOrder d req))
    \<and> (reaches_stock_check d req
         \<and> list_ex (\<lambda>item. stock_less (stock_quantity item) (quantity item))
             (select_cart_items d (cart_id req))
        \<longrightarrow> (\<exists>bad :: cart_row. PlaceOrder d req =
               (InsufficientStock (product_name bad) (stock_quantity bad) (quantity bad), d)))"
proof
  let ?items = "select_cart_items d (cart_id req)"
  show "stock_nonneg (snd (PlaceOrder d req))"
  proof (cases "\<exists>oj. fst (PlaceOrder d req) = OrderPlaced oj")
    case False
    then have "snd (PlaceOrder d req) = d" by (intro PlaceOrder_not_placed) blast
    with nonneg show ?thesis by simp
  next
    case True
    then obtain oj d' where placed: "PlaceOrder d req = (OrderPlaced oj, d')"
      by (cases "PlaceOrder d req") auto
    from placed obtain d1 d2 where "reaches_stock_check d req"
      and vs: "verify_stock ?items = None"
      and "insert_order d (user_id req) (cart_id req) (totalAmount ?items)
         ''pending'' (shipping_address req) (payment_method req) = Inr (j_id oj, d1)"
      and "insert_items d1 (j_id oj) ?items = Inr d2"
      and "d' = update_cart_status d2 (cart_id req)"
      and "oj = \<lparr>j_id = j_id oj, j_user_id = user_id req, j_cart_id = cart_id req,
           j_total_amount = toFixed2 (totalAmount ?items), j_status = ''pending'',
           j_items = map item_to_json ?items\<rparr>"
      by (rule PlaceOrder_placed)
    have prods: "products d' =
           map (\<lambda>p. p\<lparr>p_stock_quantity :=
                  map_option (\<lambda>s. s - sum_list (map quantity
                     (filter (\<lambda>item. product_id item = p_id p) ?items))) (p_stock_quantity p)\<rparr>)
               (products d)"
      by (rule placed_products[OF placed])
    have dist: "distinct (map product_id ?items)"
      by (rule select_cart_items_distinct[OF keys])
    have pk: "distinct (map p_id (products d))" using keys by (simp add: schema_keys_def)
    have "case map_option (\<lambda>s. s - sum_list (map quantity
              (filter (\<lambda>item. product_id item = p_id p) ?items))) (p_stock_quantity p) of
            None \<Rightarrow> True | Some s \<Rightarrow> 0 \<le> s"
      if p: "p \<in> set (products d)" for p
    proof (cases "p_stock_quantity p")
      case None
      then show ?thesis by simp
    next
      case (Some s)
      with nonneg p have s: "0 \<le> s" by (auto simp: stock_nonneg_def list_all_iff)
      from filter_distinct_key[OF dist, of "p_id p"]
      show ?thesis
      proof
        assume "filter (\<lambda>item. product_id item = p_id p) ?items = []"
        with Some s show ?thesis by simp
      next
        assume "\<exists>x \<in> set ?items. product_id x = p_id p
                  \<and> filter (\<lambda>item. product_id item = p_id p) ?items = [x]"
        then obtain item where item: "item \<in> set ?items" "product_id item = p_id p"
          "filter (\<lambda>item. product_id item = p_id p) ?items = [item]" by blast
        from item(1) obtain ci p' where "p' \<in> set (products d)" "p_id p' = ci_product_id ci"
          "item = join_row ci p'"
          by (rule select_cart_items_row)
        with item(2) have "p_id p' = p_id p" "stock_quantity item = p_stock_quantity p'"
          by (simp_all add: join_row_def)
        with distinct_key_eq[OF pk \<open>p' \<in> set (products d)\<close> p] Some
        have st: "stock_quantity item = Some s" by simp
        from vs item(1) have "\<not> stock_less (stock_quantity item) (quantity item)"
          by (auto simp: verify_stock_None list_ex_iff)
        with st have "quantity item \<le> s" by (simp add: stock_less_def)
        with Some item(3) show ?thesis by simp
      qed
    qed
    then have "stock_nonneg d'"
      unfolding stock_nonneg_def prods by (simp add: list_all_iff)
    with placed show ?thesis by simp
  qed
next
  show "reaches_stock_check d req
         \<and> list_ex (\<lambda>item. stock_less (stock_quantity item) (quantity item))
             (select_cart_items d (cart_id req))
        \<longrightarrow> (\<exists>bad :: cart_row. PlaceOrder d req =
               (InsufficientStock (product_name bad) (stock_quantity bad) (quantity bad), d))"
  proof
    assume a: "reaches_stock_check d req
         \<and> list_ex (\<lambda>item. stock_less (stock_quantity item) (quantity item))
             (select_cart_items d (cart_id req))"
    then have "verify_stock (select_cart_items d (cart_id req)) \<noteq> None"
      by (simp add: verify_stock_None)
    then obtain bad where bad: "verify_stock (select_cart_items d (cart_id req)) = Some bad"
      by auto
    from a have r: "reaches_stock_check d req" by simp
    show "\<exists>bad :: cart_row. PlaceOrder d req =
               (InsufficientStock (product_name bad) (stock_quantity bad) (quantity bad), d)"
      by (rule exI[of _ bad]) (rule PlaceOrder_stock_check[OF r bad])
  qed
qed

theorem checkout_keeps_stock_nonneg_witness:
  "schema_keys (shop (Some 5) (Some 1) (Some ''active''))
   \<and> stock_nonneg (shop (Some 5) (Some 1) (Some ''active''))
   \<and> stock_nonneg (snd (PlaceOrder (shop (Some 5) (Some 1) (Some ''active''))
                        (checkout (JNum 1) (JNum 7))))
   \<and> map p_stock_quantity (products (snd (PlaceOrder (shop (Some 5) (Some 1) (Some ''active''))
                        (checkout (JNum 1) (JNum 7))))) = [Some 3, Some 0]"
proof -
  have k: "schema_keys (shop (Some 5) (Some 1) (Some ''active''))"
    unfolding shop_def by (rule example_keys)
  have n: "stock_nonneg (shop (Some 5) (Some 1) (Some ''active''))"
    by (simp add: stock_nonneg_def shop_def shop_at_def)
  from checkout_keeps_stock_nonneg [OF k n, of "checkout (JNum 1) (JNum 7)"]
  have s: "stock_nonneg (snd (PlaceOrder (shop (Some 5) (Some 1) (Some ''active''))
                        (checkout (JNum 1) (JNum 7))))"
    by (rule conjunct1)
  have "map p_stock_quantity (products example_after) = [Some 3, Some 0]"
    by (simp add: example_after_def shop_def shop_at_def)
  then have "map p_stock_quantity (products (snd (PlaceOrder (shop (Some 5) (Some 1) (Some ''active''))
                        (checkout (JNum 1) (JNum 7))))) = [Some 3, Some 0]"
    by (simp only: example_checkout snd_conv)
  with k n s show ?thesis by (intro conjI)
qed

theorem decrement_goes_negative:
  "update_product_stock (shop (Some 1) (Some 1) (Some ''active'')) 2 10
     = Inr (shop (Some (- 1)) (Some 1) (Some ''active''))"
  by (simp add: update_product_stock_def shop_def shop_at_def decrement_def stock_in_range_def)


subsection \<open>The total\<close>

lemma sum_list_bounded:
  fixes f :: "'a \<Rightarrow> int"
  assumes "\<forall>x \<in> set xs. f x \<le> B"
  shows "sum_list (map f xs) \<le> int (length xs) * B"
  using assms by (induction xs) (auto simp: algebra_simps)

lemma decimal_str_two_decimals:
  "\<exists>ds a b. decimal_str c = ds @ ''.'' @ [a, b]"
  unfolding decimal_str_def fixed2_def
  by (metis append.assoc)


text \<open>
  C2, as amended. The total is the left-to-right sum of the subtotals as doubles, not an
  exact decimal sum: for subtotals 0.10 and 0.20 it is 0.3000000000000000444\<dots> For a successful checkout of at most 100000 rows with
  non-negative quantities and prices, the total returned and the total stored are
  nevertheless the exact sum of quantity times price of addition, with exactly two
  decimals.
\<close>

theorem total_to_the_cent:
  assumes placed: "PlaceOrder d req = (OrderPlaced oj, d')"
    and n: "length (select_cart_items d (cart_id req)) \<le> 100000"
    and nonneg: "\<forall>item \<in> set (select_cart_items d (cart_id req)).
                   0 \<le> quantity item \<and> (\<forall>price. price_at_addition item = Some price \<longrightarrow> 0 \<le> price)"
  shows "j_total_amount oj = decimal_str (exact_total (select_cart_items d (cart_id req)))
     \<and> o_total_amount (last (orders d')) = exact_total (select_cart_items d (cart_id req))
     \<and> list_all (\<lambda>item. price_at_addition item \<noteq> None) (select_cart_items d (cart_id req))
     \<and> (\<exists>ds a b. j_total_amount oj = ds @ ''.'' @ [a, b])"
proof -
  define items where "items = select_cart_items d (cart_id req)"
  define S where "S = sum_list (map (\<lambda>item. the (subtotal item)) items)"
  from placed_total[OF placed] obtain t where
    t: "number_to_decimal_10_2 (totalAmount items) = Inr t"
    and d': "o_total_amount (last (orders d')) = t"
    and oj: "j_total_amount oj = toFixed2 (totalAmount items)"
    unfolding items_def by blast
  from placed obtain u' c' t' where
    rows: "\<forall>item \<in> set items. price_at_addition item \<noteq> None \<and> subtotal item \<noteq> None
        \<and> \<bar>the (subtotal item)\<bar> \<le> 9999999999"
    unfolding items_def by (rule PlaceOrder_placed_store)
  have sub: "the (subtotal item) = quantity item * the (price_at_addition item)
             \<and> subtotal item = Some (the (subtotal item)) \<and> 0 \<le> the (subtotal item)"
    if "item \<in> set items" for item
  proof -
    from that rows obtain price where price: "price_at_addition item = Some price" by auto
    from that have "subtotal item = map_option (\<lambda>price. quantity item * price) (price_at_addition item)"
      unfolding items_def by (rule row_subtotal)
    with price have "subtotal item = Some (quantity item * price)" by simp
    moreover from nonneg that price have "0 \<le> quantity item * price"
      unfolding items_def by auto
    ultimately show ?thesis using price by simp
  qed
  have S_exact: "S = exact_total items"
    unfolding S_def exact_total_def using sub by (intro arg_cong[where f=sum_list] map_cong) auto
  have ok: "\<forall>item \<in> set items. \<exists>c. subtotal item = Some c \<and> 0 \<le> c"
    using sub by blast
  have sub0: "0 \<le> the (subtotal item)" if "item \<in> set items" for item
    using sub[OF that] by blast
  have S0: "0 \<le> S" unfolding S_def using sub0 by (intro sum_list_nonneg) auto
  have "S \<le> int (length items) * 9999999999"
    unfolding S_def using rows by (intro sum_list_bounded) auto
  also have "\<dots> \<le> 100000 * 9999999999"
    using n unfolding items_def by (intro mult_right_mono) simp_all
  finally have S1: "S \<le> 1000000000000000" by simp
  then have "(of_int S :: rat) \<le> 1000000000000000" by (simp only: of_int_le_iff of_int_numeral)
  then have b: "(of_int S :: rat) / 100 \<le> 10 ^ 16" by simp
  have "(3 * of_nat (length items) + 1 :: rat) \<le> 3 * 100000 + 1"
    using n unfolding items_def by simp
  also have "\<dots> \<le> 2 ^ 52" by simp
  finally have k: "(3 * of_nat (length items) + 1 :: rat) \<le> 2 ^ 52" .
  from totalAmount_close[OF ok b[unfolded S_def] k] obtain x where
    x: "totalAmount items = Finite x"
    and close: "\<bar>x - of_int S / 100\<bar> \<le> 3 * of_nat (length items) / 2 ^ 53 * (of_int S / 100)"
    unfolding S_def by blast
  have "3 * of_nat (length items) / 2 ^ 53 * (of_int S / 100)
          \<le> 300000 / 2 ^ 53 * ((of_int S :: rat) / 100)"
    using n S0 unfolding items_def by (intro mult_right_mono divide_right_mono) simp_all
  with close have close': "\<bar>x - of_int S / 100\<bar> \<le> 300000 / 2 ^ 53 * (of_int S / 100)"
    by (rule order_trans)
  from number_to_decimal_10_2_Inr[OF t] x
  have tx: "t = round_half_away (number_to_decimal x * 100)" and "\<bar>t\<bar> \<le> 9999999999" by auto
  then have "\<bar>round_half_away (number_to_decimal x * 100)\<bar> \<le> 9999999999" by simp
  from stored_in_range[OF S0 close' this] have S2: "S \<le> 10300000000" .
  from stored_cents[OF S0 S2 close'] tx have "t = S" by simp
  moreover from returned_cents[OF S0 S2 close'] x oj have "j_total_amount oj = decimal_str S"
    by simp
  moreover note d'
  moreover have "list_all (\<lambda>item. price_at_addition item \<noteq> None) items"
    using rows by (simp add: list_all_iff)
  ultimately show ?thesis
    unfolding items_def[symmetric] S_exact[symmetric] using decimal_str_two_decimals[of S] by simp
qed

theorem total_to_the_cent_witness:
  "PlaceOrder (shop (Some 5) (Some 1) (Some ''active'')) (checkout (JNum 1) (JNum 7))
     = (OrderPlaced example_order, example_after)
   \<and> length (select_cart_items (shop (Some 5) (Some 1) (Some ''active'')) (JNum 7)) \<le> 100000
   \<and> exact_total (select_cart_items (shop (Some 5) (Some 1) (Some ''active'')) (JNum 7)) = 3498
   \<and> j_total_amount example_order = ''34.98''
   \<and> o_total_amount (last (orders example_after)) = 3498"
proof -
  have c: "cart_id (checkout (JNum 1) (JNum 7)) = JNum 7" by (simp add: checkout_def)
  have n: "length (select_cart_items (shop (Some 5) (Some 1) (Some ''active''))
             (cart_id (checkout (JNum 1) (JNum 7)))) \<le> 100000"
    by (simp add: c example_items)
  have p: "\<forall>item \<in> set (select_cart_items (shop (Some 5) (Some 1) (Some ''active''))
             (cart_id (checkout (JNum 1) (JNum 7)))).
             0 \<le> quantity item \<and> (\<forall>price. price_at_addition item = Some price \<longrightarrow> 0 \<le> price)"
    by (simp add: c example_items)
  have e: "exact_total (select_cart_items (shop (Some 5) (Some 1) (Some ''active'')) (JNum 7)) = 3498"
    by (simp add: example_items exact_total_def)
  from total_to_the_cent [OF example_checkout n p] n e example_checkout
  show ?thesis
    by (simp add: c example_order_def example_after_def)
qed

theorem total_is_a_binary_sum:
  "totalAmount (select_cart_items (shop_at 5 20 (Some 5) (Some 1) (Some ''active'')) (JNum 7))
     = Finite (1351079888211149 / 4503599627370496)
   \<and> exact_total (select_cart_items (shop_at 5 20 (Some 5) (Some 1) (Some ''active'')) (JNum 7)) = 30
   \<and> Finite (1351079888211149 / 4503599627370496) \<noteq> Finite (30 / 100)"
  by (simp add: select_cart_items_def shop_at_def join_row_def totalAmount_def parseFloat_def
      exact_total_def num_eval)



subsection \<open>The cart lookup\<close>

text \<open>
  C6, as amended. The checkout does not tell a missing cart from an inactive one: for a
  request that passes the presence check and names a user, a cart id with no active
  cart, whether no cart has that id or the cart has another status, is answered 404
  with "Cart not found or not active" and the store is unchanged. A second checkout of a
  cart that has been checked out is therefore answered with this 404, for the same or
  another user, and writes nothing.
\<close>

theorem inactive_or_missing_cart_is_404:
  "(truthy (user_id req) \<and> truthy (cart_id req)
      \<and> filter (\<lambda>u. sql_eq (user_id req) (u_id u)) (users d) \<noteq> []
      \<and> list_all (\<lambda>c. sql_eq (cart_id req) (c_id c) \<longrightarrow> c_status c \<noteq> Some ''active'') (carts d)
     \<longrightarrow> PlaceOrder d req = (ErrorJson 404 ''Cart not found or not active'', d))
   \<and> (PlaceOrder d req = (OrderPlaced oj, d') \<and> cart_id again = cart_id req
      \<and> truthy (user_id again)
      \<and> filter (\<lambda>u. sql_eq (user_id again) (u_id u)) (users d') \<noteq> []
     \<longrightarrow> PlaceOrder d' again = (ErrorJson 404 ''Cart not found or not active'', d'))"
proof -
  have first: "PlaceOrder d req = (ErrorJson 404 ''Cart not found or not active'', d)"
    if "truthy (user_id req)" "truthy (cart_id req)"
      "filter (\<lambda>u. sql_eq (user_id req) (u_id u)) (users d) \<noteq> []"
      "list_all (\<lambda>c. sql_eq (cart_id req) (c_id c) \<longrightarrow> c_status c \<noteq> Some ''active'') (carts d)"
    for d :: db and req :: request
  proof -
    from that(4)
    have "filter (\<lambda>c. sql_eq (cart_id req) (c_id c) \<and> c_status c = Some ''active'') (carts d) = []"
      by (auto simp: filter_empty_conv list_all_iff)
    with that(1,2,3) show ?thesis by (simp add: PlaceOrder_def)
  qed
  have second: "PlaceOrder d' again = (ErrorJson 404 ''Cart not found or not active'', d')"
    if placed: "PlaceOrder d req = (OrderPlaced oj, d')" and same: "cart_id again = cart_id req"
      and u: "truthy (user_id again)"
        "filter (\<lambda>u. sql_eq (user_id again) (u_id u)) (users d') \<noteq> []"
  proof -
    from placed have r: "reaches_stock_check d req" by (rule PlaceOrder_placed)
    then have c: "truthy (cart_id again)" unfolding same by (simp add: reaches_stock_check_def)
    from placed_carts[OF placed]
    have "list_all (\<lambda>c. sql_eq (cart_id again) (c_id c) \<longrightarrow> c_status c \<noteq> Some ''active'')
                 (carts d')"
      unfolding same by (auto simp: list_all_iff)
    from first[OF u(1) c u(2) this] show ?thesis .
  qed
  from first second show ?thesis by blast
qed

theorem inactive_cart_answer_is_404:
  "PlaceOrder (shop (Some 5) (Some 1) (Some ''ordered'')) (checkout (JNum 1) (JNum 7))
     = (ErrorJson 404 ''Cart not found or not active'', shop (Some 5) (Some 1) (Some ''ordered''))
   \<and> map c_id (carts (shop (Some 5) (Some 1) (Some ''ordered''))) = [7, 8]
   \<and> map c_status (carts (shop (Some 5) (Some 1) (Some ''ordered'')))
       = [Some ''ordered'', Some ''active'']
   \<and> status_code (ErrorJson 404 ''Cart not found or not active'') \<noteq> 400"
  by (simp add: store_eval)

theorem inactive_or_missing_cart_is_404_witness:
  "PlaceOrder (shop (Some 5) (Some 1) (Some ''active'')) (checkout (JNum 1) (JNum 7))
     = (OrderPlaced example_order, example_after)
   \<and> PlaceOrder example_after (checkout (JNum 1) (JNum 7))
     = (ErrorJson 404 ''Cart not found or not active'', example_after)
   \<and> PlaceOrder example_after (checkout (JNum 2) (JNum 7))
     = (ErrorJson 404 ''Cart not found or not active'', example_after)
   \<and> PlaceOrder example_after (checkout (JNum 1) (JNum 99))
     = (ErrorJson 404 ''Cart not found or not active'', example_after)"
proof -
  have same: "cart_id (checkout (JNum 1) (JNum 7)) = cart_id (checkout (JNum 1) (JNum 7))"
    "cart_id (checkout (JNum 2) (JNum 7)) = cart_id (checkout (JNum 1) (JNum 7))"
    by (simp_all add: checkout_def)
  have t: "truthy (user_id (checkout (JNum 1) (JNum 7)))" "truthy (user_id (checkout (JNum 2) (JNum 7)))"
    "truthy (user_id (checkout (JNum 1) (JNum 99)))" "truthy (cart_id (checkout (JNum 1) (JNum 99)))"
    by (simp_all add: checkout_def)
  have u: "filter (\<lambda>u. sql_eq (user_id (checkout (JNum 1) (JNum 7))) (u_id u)) (users example_after) \<noteq> []"
    "filter (\<lambda>u. sql_eq (user_id (checkout (JNum 2) (JNum 7))) (u_id u)) (users example_after) \<noteq> []"
    "filter (\<lambda>u. sql_eq (user_id (checkout (JNum 1) (JNum 99))) (u_id u)) (users example_after) \<noteq> []"
    by (simp_all add: checkout_def example_after_def shop_def shop_at_def)
  have missing: "list_all (\<lambda>c. sql_eq (cart_id (checkout (JNum 1) (JNum 99))) (c_id c)
                    \<longrightarrow> c_status c \<noteq> Some ''active'') (carts example_after)"
    by (simp add: checkout_def example_after_def shop_def shop_at_def)
  from inactive_or_missing_cart_is_404 [of "checkout (JNum 1) (JNum 7)" "shop (Some 5) (Some 1) (Some ''active'')"
      example_order example_after "checkout (JNum 1) (JNum 7)"]
    example_checkout same(1) t(1) u(1)
  have a: "PlaceOrder example_after (checkout (JNum 1) (JNum 7))
     = (ErrorJson 404 ''Cart not found or not active'', example_after)" by blast
  from inactive_or_missing_cart_is_404 [of "checkout (JNum 1) (JNum 7)" "shop (Some 5) (Some 1) (Some ''active'')"
      example_order example_after "checkout (JNum 2) (JNum 7)"]
    example_checkout same(2) t(2) u(2)
  have b: "PlaceOrder example_after (checkout (JNum 2) (JNum 7))
     = (ErrorJson 404 ''Cart not found or not active'', example_after)" by blast
  from inactive_or_missing_cart_is_404 [of "checkout (JNum 1) (JNum 99)" example_after]
    t(3,4) u(3) missing
  have c: "PlaceOrder example_after (checkout (JNum 1) (JNum 99))
     = (ErrorJson 404 ''Cart not found or not active'', example_after)" by blast
  from example_checkout a b c show ?thesis by (intro conjI)
qed

subsection \<open>The status update\<close>








end
